theory Spec2Isabelle
  imports Main "HOL-Library.Word" "HOL-Library.Sublist"
begin

section \<open>File-system notifications\<close>

text \<open>
  The program receives \<^verbatim>\<open>*fsnotify.FileEvent\<close> values from the fsnotify library. The
  program reads an event only through its \<^verbatim>\<open>Name\<close> field and the five predicates
  \<^verbatim>\<open>IsCreate()\<close>, \<^verbatim>\<open>IsModify()\<close>, \<^verbatim>\<open>IsDelete()\<close>, \<^verbatim>\<open>IsRename()\<close>, \<^verbatim>\<open>IsAttrib()\<close>.
  The library is not part of the repository, so an event is the record of the path and
  of the five answers; nothing is assumed about how the answers depend on each other.
\<close>

record FileEvent =
  Name :: string
  IsCreate :: bool
  IsModify :: bool
  IsDelete :: bool
  IsRename :: bool
  IsAttrib :: bool

text \<open>
  The five kinds of raw event of the specification's data model. An event is of a kind
  when the predicate of that kind answers true and the predicates of the other kinds
  answer false; for an attribute change the answer of \<^verbatim>\<open>IsModify()\<close> is left open
  (fsnotify on Linux answers true there, other platforms need not).
\<close>

datatype Kind = Create | Modify | Delete | Rename | AttributeChange

definition ofKind :: "Kind \<Rightarrow> FileEvent \<Rightarrow> bool" where
  "ofKind k e =
     (IsCreate e = (k = Create) \<and> IsDelete e = (k = Delete) \<and> IsRename e = (k = Rename) \<and>
      IsAttrib e = (k = AttributeChange) \<and>
      (if k = Modify then IsModify e else if k = AttributeChange then True else \<not> IsModify e))"

text \<open>The event of kind \<open>k\<close> on path \<open>p\<close>; \<open>m\<close> is what \<^verbatim>\<open>IsModify()\<close> answers on an
  attribute change.\<close>

definition rawEvent :: "bool \<Rightarrow> Kind \<Rightarrow> string \<Rightarrow> FileEvent" where
  "rawEvent m k p =
     \<lparr>Name = p, IsCreate = (k = Create), IsModify = (k = Modify \<or> (k = AttributeChange \<and> m)),
      IsDelete = (k = Delete), IsRename = (k = Rename), IsAttrib = (k = AttributeChange)\<rparr>"

section \<open>Errors\<close>

datatype error =
    ErrZeroEvents               \<comment> \<open>\<^verbatim>\<open>"zero events is simply not enough"\<close>\<close>
  | ErrEventNotFound string     \<comment> \<open>\<^verbatim>\<open>"the event %s was not found"\<close>\<close>
  | ErrOS nat                   \<comment> \<open>an error returned by the operating system or a library\<close>
  | SkipDir                     \<comment> \<open>\<^verbatim>\<open>filepath.SkipDir\<close>\<close>
  | Panic                       \<comment> \<open>a run-time panic, which ends the program\<close>

section \<open>Event bits and the validation of the watch flags (watchservice.go)\<close>

definition fsnCreate :: "32 word" where "fsnCreate = 1"
definition fsnModify :: "32 word" where "fsnModify = 2"
definition fsnDelete :: "32 word" where "fsnDelete = 4"
definition fsnRename :: "32 word" where "fsnRename = 8"

record EventBit =
  BitName :: string
  Value :: "32 word"
  Desc :: string

definition CreateEvent :: EventBit where
  "CreateEvent = \<lparr>BitName = ''create'', Value = fsnCreate,
     Desc = ''File/directory created in watched directory''\<rparr>"

definition DeleteEvent :: EventBit where
  "DeleteEvent = \<lparr>BitName = ''delete'', Value = fsnDelete,
     Desc = ''File/directory deleted from watched directory''\<rparr>"

definition ModifyEvent :: EventBit where
  "ModifyEvent = \<lparr>BitName = ''modify'', Value = fsnModify,
     Desc = ''File was modified or Metadata changed''\<rparr>"

definition RenameEvent :: EventBit where
  "RenameEvent = \<lparr>BitName = ''rename'', Value = fsnRename,
     Desc = ''File moved out of watched directory''\<rparr>"

definition ValidEvents :: "string \<rightharpoonup> EventBit" where
  "ValidEvents =
     [''create'' \<mapsto> CreateEvent, ''delete'' \<mapsto> DeleteEvent,
      ''modify'' \<mapsto> ModifyEvent, ''rename'' \<mapsto> RenameEvent]"

text \<open>
  \<^verbatim>\<open>validateWatchFlags\<close>. The first loop rejects an unknown name and notes whether
  \<^verbatim>\<open>"all"\<close> occurs; the second loop populates the map. \<^verbatim>\<open>strings.ToLower\<close> belongs to
  Go's standard library and is the parameter \<open>toLower\<close>.
\<close>

fun checkEvents :: "(string \<Rightarrow> string) \<Rightarrow> string list \<Rightarrow> bool \<Rightarrow> error + bool" where
  "checkEvents toLower [] containsAll = Inr containsAll"
| "checkEvents toLower (event # events) containsAll =
     (let eevent = toLower event; ok = (ValidEvents eevent \<noteq> None) in
      if eevent = ''all'' then checkEvents toLower events True
      else if \<not> ok then Inl (ErrEventNotFound eevent)
      else checkEvents toLower events containsAll)"

fun populateFlags ::
  "(string \<Rightarrow> string) \<Rightarrow> string list \<Rightarrow> (string \<rightharpoonup> EventBit) \<Rightarrow> (string \<rightharpoonup> EventBit)" where
  "populateFlags toLower [] watchedFlags = watchedFlags"
| "populateFlags toLower (event # events) watchedFlags =
     (let lcEvent = toLower event in
      populateFlags toLower events
        (if lcEvent = BitName CreateEvent then watchedFlags(BitName CreateEvent \<mapsto> CreateEvent)
         else if lcEvent = BitName DeleteEvent then watchedFlags(BitName DeleteEvent \<mapsto> DeleteEvent)
         else if lcEvent = BitName ModifyEvent then watchedFlags(BitName ModifyEvent \<mapsto> ModifyEvent)
         else if lcEvent = BitName RenameEvent then watchedFlags(BitName RenameEvent \<mapsto> RenameEvent)
         else watchedFlags))"

definition validateWatchFlags ::
  "(string \<Rightarrow> string) \<Rightarrow> string list \<Rightarrow> error + (string \<rightharpoonup> EventBit)" where
  "validateWatchFlags toLower events =
     (if length events = 0 then Inl ErrZeroEvents
      else case checkEvents toLower events False of
             Inl err \<Rightarrow> Inl err
           | Inr containsAll \<Rightarrow>
               Inr (if containsAll then ValidEvents
                    else populateFlags toLower events Map.empty))"

section \<open>The event classifier (filter.go)\<close>

text \<open>\<^verbatim>\<open>checkEventType\<close>: the first case of the switch that holds decides; the case of
  \<^verbatim>\<open>IsAttrib()\<close> stands before the case of \<^verbatim>\<open>IsModify()\<close> and has an empty body.\<close>

definition checkEventType :: "(string \<rightharpoonup> EventBit) \<Rightarrow> FileEvent \<Rightarrow> bool" where
  "checkEventType watchedEvents evt =
     (if IsCreate evt then watchedEvents (BitName CreateEvent) \<noteq> None
      else if IsAttrib evt then False
      else if IsModify evt then watchedEvents (BitName ModifyEvent) \<noteq> None
      else if IsDelete evt then watchedEvents (BitName DeleteEvent) \<noteq> None
      else if IsRename evt then watchedEvents (BitName RenameEvent) \<noteq> None
      else False)"

text \<open>The key under which a kind stands in the mask; an attribute change has none of
  the four keys.\<close>

fun kindName :: "Kind \<Rightarrow> string" where
  "kindName Create = ''create''"
| "kindName Modify = ''modify''"
| "kindName Delete = ''delete''"
| "kindName Rename = ''rename''"
| "kindName AttributeChange = ''attrib''"

section \<open>The command runner (executor.go)\<close>

definition VarFilename :: string where "VarFilename = ''%f''"
definition VarEventType :: string where "VarEventType = ''%t''"

text \<open>
  \<^verbatim>\<open>strings.Replace(s, old, new, -1)\<close> of Go's standard library, for a non-empty \<open>old\<close>:
  the occurrences of \<open>old\<close> are found from left to right, each search starting behind the
  occurrence before, and every one is replaced by \<open>new\<close>. (With an empty \<open>old\<close> Go
  inserts \<open>new\<close> around every rune; the program never does that, and the model returns
  \<open>s\<close> there.)
\<close>

function Replace :: "string \<Rightarrow> string \<Rightarrow> string \<Rightarrow> string" where
  "Replace s old new =
     (if old = [] \<or> s = [] then s
      else if prefix old s then new @ Replace (drop (length old) s) old new
      else hd s # Replace (tl s) old new)"
  by pat_completeness auto
termination
  by (relation "measure (\<lambda>(s, old, new). length s)") auto

declare Replace.simps [simp del]

text \<open>\<^verbatim>\<open>strings.Split(s, sep)\<close> for a separator of one byte: one more piece than there
  are separators, empty pieces kept.\<close>

fun Split :: "string \<Rightarrow> char \<Rightarrow> string list" where
  "Split [] sep = [[]]"
| "Split (c # s) sep =
     (if c = sep then [] # Split s sep
      else case Split s sep of
             piece # pieces \<Rightarrow> (c # piece) # pieces
           | [] \<Rightarrow> [[c]])"

text \<open>\<^verbatim>\<open>getEventType\<close> (watchservice.go): the first case that holds names the event.\<close>

definition getEventType :: "FileEvent \<Rightarrow> string" where
  "getEventType evt =
     (if IsCreate evt then ''ENTRY_CREATE''
      else if IsModify evt then ''ENTRY_MODIFY''
      else if IsDelete evt then ''ENTRY_DELETE''
      else if IsRename evt then ''ENTRY_RENAME''
      else '''')"

definition evaluateVariables :: "string \<Rightarrow> FileEvent \<Rightarrow> string" where
  "evaluateVariables command evt =
     (let command1 = Replace command VarFilename (Name evt);
          command2 = Replace command1 VarEventType (getEventType evt)
      in command2)"

text \<open>
  A command template as the sequence of its literal pieces and tokens, the template
  string it stands for, and the string in which every path token is the path and every
  type token the type's name. The specification's "every occurrence of the token" is
  read on this form.
\<close>

datatype Segment = Lit string | PathToken | TypeToken

fun template :: "Segment list \<Rightarrow> string" where
  "template [] = []"
| "template (Lit s # segs) = s @ template segs"
| "template (PathToken # segs) = VarFilename @ template segs"
| "template (TypeToken # segs) = VarEventType @ template segs"

fun instantiate :: "Segment list \<Rightarrow> string \<Rightarrow> string \<Rightarrow> string" where
  "instantiate [] p ty = []"
| "instantiate (Lit s # segs) p ty = s @ instantiate segs p ty"
| "instantiate (PathToken # segs) p ty = p @ instantiate segs p ty"
| "instantiate (TypeToken # segs) p ty = ty @ instantiate segs p ty"

fun literals :: "Segment list \<Rightarrow> string list" where
  "literals [] = []"
| "literals (Lit s # segs) = s # literals segs"
| "literals (PathToken # segs) = literals segs"
| "literals (TypeToken # segs) = literals segs"

text \<open>The name \<^verbatim>\<open>getEventType\<close> gives an event of each of the four kinds. (For an
  attribute change the name depends on what \<^verbatim>\<open>IsModify()\<close> answers; that entry is not
  used.)\<close>

fun entryName :: "Kind \<Rightarrow> string" where
  "entryName Create = ''ENTRY_CREATE''"
| "entryName Modify = ''ENTRY_MODIFY''"
| "entryName Delete = ''ENTRY_DELETE''"
| "entryName Rename = ''ENTRY_RENAME''"
| "entryName AttributeChange = ''''"

section \<open>The outside world\<close>

text \<open>
  Every call that leaves the program (a stat, a read of a file, the clock, a call on the
  fsnotify watcher, the run of a command) is answered by the environment. The answers
  may change from one call to the next, so they are indexed by the number of calls made
  so far, the \<open>tick\<close>, which every such call advances by one.
  \<^verbatim>\<open>ContinueOnError\<close> is a package variable declared outside the files at hand.
  Times are nanoseconds since Go's zero \<^verbatim>\<open>time.Time\<close>, durations nanoseconds.
\<close>

record FileInfo =
  Size :: int
  IsDir :: bool

record Env =
  osStat :: "nat \<Rightarrow> string \<Rightarrow> error + FileInfo"
  fileChecksum :: "nat \<Rightarrow> string \<Rightarrow> error + 32 word"
  timeNow :: "nat \<Rightarrow> int"
  watcherWatch :: "nat \<Rightarrow> string \<Rightarrow> error option"
  cmdRun :: "nat \<Rightarrow> string list \<Rightarrow> error option"
  ContinueOnError :: bool

section \<open>The service and the state of its consumer\<close>

record FileEntry =
  size_fe :: int
  hash_fe :: "32 word"

record Config =
  Recursive :: bool
  Events :: "string list"
  IncludePattern :: string
  Commands :: "string list"
  Interval :: int
  Version :: string

text \<open>The fsnotify watcher is seen through the calls made on it. The compiled regular
  expression is seen through \<^verbatim>\<open>MatchString\<close>.\<close>

datatype WatcherCall = Watch string | RemoveWatch string

record WatchService =
  path :: string
  config :: Config
  watcher :: "WatcherCall list"
  watchFlags :: "string \<rightharpoonup> EventBit"
  includePatternRegexp :: "string \<Rightarrow> bool"
  dirs :: "string \<rightharpoonup> bool"
  entries :: "string \<rightharpoonup> FileEntry"

text \<open>
  The consumer of \<^verbatim>\<open>startWorker\<close> owns the service, its local \<^verbatim>\<open>lastExec\<close>, and, for the
  statements below, the tick, the stages consulted so far (one entry at each call of a
  stage, in the order of the calls) and the argument vectors of the commands run.
\<close>

datatype Stage =
  WatchSetSync | PatternFilter | EventClassifier | ThrottleGate | Debouncer | CommandRunner

record Worker = WatchService +
  lastExec :: int
  tick :: nat
  trace :: "Stage list"
  executed :: "string list list"

definition consult :: "Stage \<Rightarrow> Worker \<Rightarrow> Worker" where
  "consult s w = w\<lparr>trace := trace w @ [s]\<rparr>"

section \<open>The pattern filter and the throttle gate (filter.go)\<close>

definition checkPatternMatching :: "(string \<Rightarrow> bool) \<Rightarrow> FileEvent \<Rightarrow> bool" where
  "checkPatternMatching pattern evt = pattern (Name evt)"

text \<open>\<^verbatim>\<open>Time.Sub\<close> saturates at the least and the greatest \<^verbatim>\<open>Duration\<close>.\<close>

definition timeSub :: "int \<Rightarrow> int \<Rightarrow> int" where
  "timeSub t u = max (- (2 ^ 63)) (min (2 ^ 63 - 1) (t - u))"

definition checkExecInterval :: "int \<Rightarrow> int \<Rightarrow> int \<Rightarrow> bool" where
  "checkExecInterval lastExecution interval now =
     (if interval = 0 then True
      else let nextExec = lastExecution + interval;
               delta = timeSub now nextExec
           in delta > 0)"

section \<open>The stabilization debouncer (filter.go)\<close>

definition FileCloseCheckThreshold :: nat where "FileCloseCheckThreshold = 2"

definition getFileSize :: "Env \<Rightarrow> string \<Rightarrow> nat \<Rightarrow> error + int" where
  "getFileSize env filename t =
     (case osStat env t filename of Inl err \<Rightarrow> Inl err | Inr st \<Rightarrow> Inr (Size st))"

definition getContentHash :: "Env \<Rightarrow> string \<Rightarrow> nat \<Rightarrow> error + 32 word" where
  "getContentHash env filename t = fileChecksum env t filename"

text \<open>
  The loop of \<^verbatim>\<open>waitForFileClose\<close>, from the values of \<^verbatim>\<open>lastSize\<close> and
  \<^verbatim>\<open>counter\<close> at tick \<open>t\<close>. It has no bound: where the Go loop does not return, the
  value is \<open>None\<close>. It returns the error (or none) and the tick behind its last read.
\<close>

partial_function (option) waitLoop ::
  "Env \<Rightarrow> string \<Rightarrow> int \<Rightarrow> nat \<Rightarrow> nat \<Rightarrow> (error option \<times> nat) option" where
  "waitLoop env filename lastSize counter t =
     (case getFileSize env filename t of
        Inl errFilesize \<Rightarrow> Some (Some errFilesize, Suc t)
      | Inr currentSize \<Rightarrow>
          if lastSize = currentSize then
            (if counter + 1 \<ge> FileCloseCheckThreshold then Some (None, Suc t)
             else waitLoop env filename currentSize (counter + 1) (Suc t))
          else waitLoop env filename currentSize 0 (Suc t))"

definition waitForFileClose :: "Env \<Rightarrow> string \<Rightarrow> nat \<Rightarrow> (error option \<times> nat) option" where
  "waitForFileClose env filename t = waitLoop env filename 0 0 t"

definition newFileEntry :: "Env \<Rightarrow> string \<Rightarrow> nat \<Rightarrow> (error + FileEntry) \<times> nat" where
  "newFileEntry env filename t =
     (case getFileSize env filename t of
        Inl err \<Rightarrow> (Inl err, Suc t)
      | Inr contentSize \<Rightarrow>
          (case getContentHash env filename (Suc t) of
             Inl err \<Rightarrow> (Inl err, Suc (Suc t))
           | Inr checksum \<Rightarrow>
               (Inr \<lparr>size_fe = contentSize, hash_fe = checksum\<rparr>, Suc (Suc t))))"

text \<open>
  \<^verbatim>\<open>checkFileContentChanged\<close>. The map holds pointers to entries, each pointer under one
  key only, so the assignments to \<^verbatim>\<open>cachedEntry.size\<close> and \<^verbatim>\<open>cachedEntry.hash\<close> are
  updates of the map at \<open>filename\<close>, made at once. The result is the answer, the cache
  and the tick behind the last read.
\<close>

definition checkFileContentChanged ::
  "Env \<Rightarrow> (string \<rightharpoonup> FileEntry) \<Rightarrow> string \<Rightarrow> nat \<Rightarrow>
     (bool \<times> (string \<rightharpoonup> FileEntry) \<times> nat) option" where
  "checkFileContentChanged env es filename t =
     (case waitForFileClose env filename t of
        None \<Rightarrow> None
      | Some (Some err, t1) \<Rightarrow> Some (False, es, t1)
      | Some (None, t1) \<Rightarrow>
          (case es filename of
             None \<Rightarrow>
               (case newFileEntry env filename t1 of
                  (Inl err, t2) \<Rightarrow> Some (False, es, t2)
                | (Inr newEntry, t2) \<Rightarrow> Some (True, es(filename \<mapsto> newEntry), t2))
           | Some cachedEntry \<Rightarrow>
               (case getFileSize env filename t1 of
                  Inl err \<Rightarrow> Some (False, es, Suc t1)
                | Inr contentSize \<Rightarrow>
                    (let sizeDiffers = (size_fe cachedEntry \<noteq> contentSize);
                         cachedEntry1 =
                           (if sizeDiffers then cachedEntry\<lparr>size_fe := contentSize\<rparr>
                            else cachedEntry);
                         es1 = es(filename \<mapsto> cachedEntry1)
                     in case getContentHash env filename (Suc t1) of
                          Inl err \<Rightarrow> Some (False, es1, Suc (Suc t1))
                        | Inr contentHash \<Rightarrow>
                            (let hashDiffers = (hash_fe cachedEntry1 \<noteq> contentHash);
                                 cachedEntry2 =
                                   (if hashDiffers then cachedEntry1\<lparr>hash_fe := contentHash\<rparr>
                                    else cachedEntry1)
                             in Some (sizeDiffers \<or> hashDiffers,
                                      es(filename \<mapsto> cachedEntry2), Suc (Suc t1)))))))"

section \<open>The watch set (watchservice.go)\<close>

definition PathSeparator :: char where "PathSeparator = CHR ''/''"

definition isDir :: "Worker \<Rightarrow> string \<Rightarrow> bool" where
  "isDir w p = (dirs w p \<noteq> None)"

definition callWatch :: "Env \<Rightarrow> string \<Rightarrow> Worker \<Rightarrow> error option \<times> Worker" where
  "callWatch env p w =
     (watcherWatch env (tick w) p,
      w\<lparr>watcher := watcher w @ [Watch p], tick := Suc (tick w)\<rparr>)"

definition callRemoveWatch :: "string \<Rightarrow> Worker \<Rightarrow> Worker" where
  "callRemoveWatch p w = w\<lparr>watcher := watcher w @ [RemoveWatch p], tick := Suc (tick w)\<rparr>"

text \<open>
  \<^verbatim>\<open>syncWatchersAndCaches\<close>. The loop over the cache deletes every entry whose key has
  the prefix \<^verbatim>\<open>dirPath\<close>; deleting during a Go \<^verbatim>\<open>range\<close> is safe and the order of the
  keys has no effect, so the loop is the map without those keys.
\<close>

definition syncWatchersAndCaches :: "Env \<Rightarrow> Worker \<Rightarrow> FileEvent \<Rightarrow> Worker" where
  "syncWatchersAndCaches env w evt =
     (let p = Name evt in
      if IsCreate evt then
        (case osStat env (tick w) p of
           Inl err \<Rightarrow> w\<lparr>tick := Suc (tick w)\<rparr>
         | Inr stat \<Rightarrow>
             if IsDir stat then
               snd (callWatch env p (w\<lparr>dirs := (dirs w)(p \<mapsto> True), tick := Suc (tick w)\<rparr>))
             else w\<lparr>tick := Suc (tick w)\<rparr>)
      else if IsRename evt \<or> IsDelete evt then
        (if isDir w p then
           (let w1 = callRemoveWatch p (w\<lparr>dirs := (dirs w)(p := None)\<rparr>);
                dirPath = p @ [PathSeparator]
            in w1\<lparr>entries := (\<lambda>entryPath. if prefix dirPath entryPath then None
                                           else entries w1 entryPath)\<rparr>)
         else w\<lparr>entries := (entries w)(p := None)\<rparr>)
      else w)"

section \<open>Running the commands (executor.go, watchservice.go)\<close>

definition execute :: "Env \<Rightarrow> string \<Rightarrow> FileEvent \<Rightarrow> Worker \<Rightarrow> error option \<times> Worker" where
  "execute env command evt w =
     (let command1 = evaluateVariables command evt;
          commandArgs = Split command1 CHR '' '';
          args = (if length commandArgs > 1 then hd commandArgs # tl commandArgs
                  else [hd commandArgs])
      in (cmdRun env (tick w) args,
          w\<lparr>executed := executed w @ [args], tick := Suc (tick w)\<rparr>))"

fun runCommands :: "Env \<Rightarrow> FileEvent \<Rightarrow> string list \<Rightarrow> Worker \<Rightarrow> Worker" where
  "runCommands env evt [] w = w"
| "runCommands env evt (command # commands) w =
     (case execute env command evt w of
        (err, w1) \<Rightarrow>
          if err \<noteq> None \<and> \<not> ContinueOnError env then w1
          else runCommands env evt commands w1)"

definition run :: "Env \<Rightarrow> Worker \<Rightarrow> FileEvent \<Rightarrow> Worker" where
  "run env w evt = runCommands env evt (Commands (config w)) w"

section \<open>The consumer (watchservice.go)\<close>

text \<open>\<^verbatim>\<open>lastExec = time.Now()\<close> followed by \<^verbatim>\<open>w.run(evt)\<close>.\<close>

definition stampAndRun :: "Env \<Rightarrow> Worker \<Rightarrow> FileEvent \<Rightarrow> Worker" where
  "stampAndRun env w evt =
     run env (consult CommandRunner (w\<lparr>lastExec := timeNow env (tick w), tick := Suc (tick w)\<rparr>)) evt"

text \<open>The body of the loop of \<^verbatim>\<open>startWorker\<close> for one event; \<open>None\<close> when the debouncer
  does not return.\<close>

definition handleEvent :: "Env \<Rightarrow> Worker \<Rightarrow> FileEvent \<Rightarrow> Worker option" where
  "handleEvent env w evt =
     (let w1 = syncWatchersAndCaches env (consult WatchSetSync w) evt;
          w2 = consult PatternFilter w1
      in
      if checkPatternMatching (includePatternRegexp w2) evt then
        (let w3 = consult EventClassifier w2 in
         if checkEventType (watchFlags w3) evt then
           (let now = timeNow env (tick w3);
                w4 = consult ThrottleGate (w3\<lparr>tick := Suc (tick w3)\<rparr>)
            in
            if checkExecInterval (lastExec w4) (Interval (config w4)) now then
              if isDir w4 (Name evt) then Some (stampAndRun env w4 evt)
              else if IsModify evt then
                (case checkFileContentChanged env (entries w4) (Name evt) (tick w4) of
                   None \<Rightarrow> None
                 | Some (changed, es, t) \<Rightarrow>
                     (let w5 = (consult Debouncer w4)\<lparr>entries := es, tick := t\<rparr> in
                      if \<not> changed then Some w5
                      else Some (stampAndRun env w5 evt)))
              else Some (stampAndRun env w4 evt)
            else Some w4)
         else Some w3)
      else Some w2)"

text \<open>The loop itself, over the events the channel delivers; \<^verbatim>\<open>lastExec\<close> starts as the
  zero time.\<close>

fun consume :: "Env \<Rightarrow> Worker \<Rightarrow> FileEvent list \<Rightarrow> Worker option" where
  "consume env w [] = Some w"
| "consume env w (evt # events) =
     (case handleEvent env w evt of
        None \<Rightarrow> None
      | Some w1 \<Rightarrow> consume env w1 events)"

definition startWorker :: "Env \<Rightarrow> Worker \<Rightarrow> FileEvent list \<Rightarrow> Worker option" where
  "startWorker env w events = consume env (w\<lparr>lastExec := 0\<rparr>) events"

section \<open>Notions used to state the properties\<close>

text \<open>
  The polls of \<^verbatim>\<open>waitForFileClose\<close> started at tick \<open>t\<close>: poll \<open>i\<close> is the size read at tick
  \<open>t + i\<close>. A poll finds the size unchanged when the read succeeds with the value of
  \<^verbatim>\<open>lastSize\<close>, which is the size of the poll before and, for the first poll, the
  initial value 0 of the variable. The file is stable at poll \<open>n\<close> when poll \<open>n\<close> and the
  poll before it both find the size unchanged: the second of two consecutive unchanged
  polls.
\<close>

definition sizeRead :: "Env \<Rightarrow> string \<Rightarrow> nat \<Rightarrow> nat \<Rightarrow> error + int" where
  "sizeRead env filename t i = getFileSize env filename (t + i)"

definition previousSize :: "Env \<Rightarrow> string \<Rightarrow> nat \<Rightarrow> nat \<Rightarrow> int" where
  "previousSize env filename t i =
     (if i = 0 then 0
      else case sizeRead env filename t (i - 1) of Inr s \<Rightarrow> s | Inl err \<Rightarrow> 0)"

definition unchangedPoll :: "Env \<Rightarrow> string \<Rightarrow> nat \<Rightarrow> nat \<Rightarrow> bool" where
  "unchangedPoll env filename t i =
     (sizeRead env filename t i = Inr (previousSize env filename t i))"

definition stablePoll :: "Env \<Rightarrow> string \<Rightarrow> nat \<Rightarrow> nat \<Rightarrow> bool" where
  "stablePoll env filename t n =
     (1 \<le> n \<and> unchangedPoll env filename t (n - 1) \<and> unchangedPoll env filename t n)"

text \<open>The value of \<^verbatim>\<open>counter\<close> before poll \<open>i\<close>, as long as the loop has not returned.\<close>

definition counterBefore :: "Env \<Rightarrow> string \<Rightarrow> nat \<Rightarrow> nat \<Rightarrow> nat" where
  "counterBefore env filename t i =
     (if 1 \<le> i \<and> unchangedPoll env filename t (i - 1) then 1 else 0)"

text \<open>
  The polls started at tick \<open>t\<close> settle at poll \<open>n\<close> when every read up to poll \<open>n\<close>
  succeeds and poll \<open>n\<close> is the first at which the file is stable. They fail at poll
  \<open>n\<close> when the read of poll \<open>n\<close> is the first that fails and the file has not been
  stable before.
\<close>

definition settlesAt :: "Env \<Rightarrow> string \<Rightarrow> nat \<Rightarrow> nat \<Rightarrow> bool" where
  "settlesAt env filename t n =
     ((\<forall>i\<le>n. \<not> isl (sizeRead env filename t i)) \<and> stablePoll env filename t n \<and>
      (\<forall>m<n. \<not> stablePoll env filename t m))"

definition pollFailsAt :: "Env \<Rightarrow> string \<Rightarrow> nat \<Rightarrow> nat \<Rightarrow> bool" where
  "pollFailsAt env filename t n =
     ((\<forall>i<n. \<not> isl (sizeRead env filename t i)) \<and> (\<forall>m<n. \<not> stablePoll env filename t m) \<and>
      isl (sizeRead env filename t n))"




text \<open>
  An environment that answers the stats with the sizes \<open>sizes\<close> and the reads with the
  checksums \<open>sums\<close>, both by tick, for files that are no directories; the clock shows
  the tick, and every watch and every command succeeds.
\<close>

definition scriptedEnv :: "(nat \<Rightarrow> error + int) \<Rightarrow> (nat \<Rightarrow> error + 32 word) \<Rightarrow> Env" where
  "scriptedEnv sizes sums =
     \<lparr>osStat = (\<lambda>t p. case sizes t of Inl err \<Rightarrow> Inl err
                              | Inr s \<Rightarrow> Inr \<lparr>Size = s, IsDir = False\<rparr>),
      fileChecksum = (\<lambda>t p. sums t),
      timeNow = (\<lambda>t. int t),
      watcherWatch = (\<lambda>t p. None),
      cmdRun = (\<lambda>t args. None),
      ContinueOnError = False\<rparr>"

text \<open>A worker at its start, for concrete runs: root \<^verbatim>\<open>/tmp\<close>, nothing watched or
  cached yet.\<close>

definition newWorker ::
  "string list \<Rightarrow> int \<Rightarrow> (string \<rightharpoonup> EventBit) \<Rightarrow> (string \<Rightarrow> bool) \<Rightarrow> Worker" where
  "newWorker commands interval flags pattern =
     \<lparr>path = ''/tmp'',
      config = \<lparr>Recursive = False, Events = [''all''], IncludePattern = ''.*'',
                Commands = commands, Interval = interval, Version = ''''\<rparr>,
      watcher = [], watchFlags = flags, includePatternRegexp = pattern,
      dirs = Map.empty, entries = Map.empty,
      lastExec = 0, tick = 0, trace = [], executed = []\<rparr>"


text \<open>The worker as the watch-set sync of an event leaves it, and the tick at which the
  debouncer then starts (one reading of the clock, for the throttle gate, comes
  between).\<close>

definition synced :: "Env \<Rightarrow> Worker \<Rightarrow> FileEvent \<Rightarrow> Worker" where
  "synced env w evt = syncWatchersAndCaches env (consult WatchSetSync w) evt"

definition debounceTick :: "Env \<Rightarrow> Worker \<Rightarrow> FileEvent \<Rightarrow> nat" where
  "debounceTick env w evt = Suc (tick (synced env w evt))"


section \<open>The bootstrap of the watch set (watchservice.go)\<close>

text \<open>
  \<^verbatim>\<open>filepath.Walk\<close> of Go's standard library, as current releases have it, walks the
  file tree below the root. The tree is what the walk finds: for every file its base
  name, whether it is a directory, the error of reading the directory (if any) and its
  entries in lexical order (the entries whose stat succeeds). \<^verbatim>\<open>filepath.Join\<close> is the
  parameter \<open>join\<close>. The walk calls the function once on every file, for a directory
  with the error of reading it; it descends only when the directory could be read and
  the function returned no error. \<^verbatim>\<open>SkipDir\<close> returned for a directory skips it, any
  other error ends the walk. (\<^verbatim>\<open>SkipAll\<close> is left out: the function below never
  returns it.)
\<close>

datatype FileTree =
  FileTree (treeName: string) (treeIsDir: bool) (readDirError: "error option")
    (treeEntries: "FileTree list")

fun walk ::
  "(string \<Rightarrow> string \<Rightarrow> string) \<Rightarrow>
   (string \<Rightarrow> bool \<Rightarrow> error option \<Rightarrow> Worker \<Rightarrow> error option \<times> Worker) \<Rightarrow>
   string \<Rightarrow> FileTree \<Rightarrow> Worker \<Rightarrow> error option \<times> Worker"
and walkEntries ::
  "(string \<Rightarrow> string \<Rightarrow> string) \<Rightarrow>
   (string \<Rightarrow> bool \<Rightarrow> error option \<Rightarrow> Worker \<Rightarrow> error option \<times> Worker) \<Rightarrow>
   string \<Rightarrow> FileTree list \<Rightarrow> Worker \<Rightarrow> error option \<times> Worker" where
  "walk join walkFn p (FileTree name isdir rderr list) w =
     (if \<not> isdir then walkFn p isdir None w
      else (case walkFn p isdir rderr w of
              (err1, w1) \<Rightarrow>
                if rderr \<noteq> None \<or> err1 \<noteq> None then (err1, w1)
                else walkEntries join walkFn p list w1))"
| "walkEntries join walkFn p [] w = (None, w)"
| "walkEntries join walkFn p (fileInfo # list) w =
     (case walk join walkFn (join p (treeName fileInfo)) fileInfo w of
        (Some err, w1) \<Rightarrow>
          if \<not> treeIsDir fileInfo \<or> err \<noteq> SkipDir then (Some err, w1)
          else walkEntries join walkFn p list w1
      | (None, w1) \<Rightarrow> walkEntries join walkFn p list w1)"

definition Walk ::
  "(string \<Rightarrow> string \<Rightarrow> string) \<Rightarrow>
   (string \<Rightarrow> bool \<Rightarrow> error option \<Rightarrow> Worker \<Rightarrow> error option \<times> Worker) \<Rightarrow>
   string \<Rightarrow> FileTree \<Rightarrow> Worker \<Rightarrow> error option \<times> Worker" where
  "Walk join walkFn root tree w =
     (case walk join walkFn root tree w of
        (Some err, w1) \<Rightarrow> if err = SkipDir then (None, w1) else (Some err, w1)
      | (None, w1) \<Rightarrow> (None, w1))"

text \<open>The function literal \<^verbatim>\<open>watchFolders\<close> hands to the walk, and \<^verbatim>\<open>watchFolders\<close>. When
  the stat of the root fails, the walk calls the function with a nil \<^verbatim>\<open>info\<close>, on which
  \<^verbatim>\<open>info.IsDir()\<close> panics.\<close>

definition watchFolderFn ::
  "Env \<Rightarrow> string \<Rightarrow> bool \<Rightarrow> error option \<Rightarrow> Worker \<Rightarrow> error option \<times> Worker" where
  "watchFolderFn env p infoIsDir errPath w =
     (if infoIsDir then
        (let relativePath = ''./'' @ p in
         case errPath of
           None \<Rightarrow> callWatch env p (w\<lparr>dirs := (dirs w)(relativePath \<mapsto> True)\<rparr>)
         | Some err \<Rightarrow> (Some SkipDir, w))
      else (None, w))"

definition watchFolders ::
  "(string \<Rightarrow> string \<Rightarrow> string) \<Rightarrow> Env \<Rightarrow> error + FileTree \<Rightarrow> Worker \<Rightarrow> error option \<times> Worker" where
  "watchFolders join env root w =
     (if Recursive (config w) then
        (case root of
           Inl err \<Rightarrow> (Some Panic, w)
         | Inr tree \<Rightarrow> Walk join (watchFolderFn env) (path w) tree w)
      else callWatch env (path w) w)"

text \<open>The directories of a tree with their paths, in the order of the walk; a tree all
  of whose directories can be read; the registration of one directory by the function
  above.\<close>

fun dirPaths :: "(string \<Rightarrow> string \<Rightarrow> string) \<Rightarrow> string \<Rightarrow> FileTree \<Rightarrow> string list"
and dirPathsEntries :: "(string \<Rightarrow> string \<Rightarrow> string) \<Rightarrow> string \<Rightarrow> FileTree list \<Rightarrow> string list" where
  "dirPaths join p (FileTree name isdir rderr list) =
     (if isdir then p # dirPathsEntries join p list else [])"
| "dirPathsEntries join p [] = []"
| "dirPathsEntries join p (fileInfo # list) =
     dirPaths join (join p (treeName fileInfo)) fileInfo @ dirPathsEntries join p list"

fun readable :: "FileTree \<Rightarrow> bool" and readableEntries :: "FileTree list \<Rightarrow> bool" where
  "readable (FileTree name isdir rderr list) = (rderr = None \<and> readableEntries list)"
| "readableEntries [] = True"
| "readableEntries (fileInfo # list) = (readable fileInfo \<and> readableEntries list)"

definition registerDir :: "Env \<Rightarrow> Worker \<Rightarrow> string \<Rightarrow> Worker" where
  "registerDir env w p = snd (callWatch env p (w\<lparr>dirs := (dirs w)(''./'' @ p \<mapsto> True)\<rparr>))"

section \<open>Properties of the classifier\<close>

lemma dom_ValidEvents: "dom ValidEvents = {''create'', ''delete'', ''modify'', ''rename''}"
  by (auto simp: ValidEvents_def split: if_splits)

lemma checkEvents_Inr:
  "checkEvents toLower events b = Inr c \<Longrightarrow>
     c = (b \<or> ''all'' \<in> toLower ` set events) \<and>
     (\<forall>x \<in> toLower ` set events. x = ''all'' \<or> x \<in> dom ValidEvents)"
proof (induction events arbitrary: b)
  case Nil
  then show ?case by simp
next
  case (Cons event events)
  show ?case
  proof (cases "toLower event = ''all''")
    case True
    with Cons.prems have "checkEvents toLower events True = Inr c" by simp
    from Cons.IH [OF this] True show ?thesis by auto
  next
    case False
    with Cons.prems have ok: "ValidEvents (toLower event) \<noteq> None"
      and rest: "checkEvents toLower events b = Inr c"
      by (auto simp: Let_def split: if_splits)
    from Cons.IH [OF rest] False ok show ?thesis by (auto simp: dom_def)
  qed
qed

lemma dom_populateFlags:
  "dom (populateFlags toLower events m) =
     dom m \<union> (toLower ` set events \<inter> {''create'', ''delete'', ''modify'', ''rename''})"
proof (induction events arbitrary: m)
  case Nil
  then show ?case by simp
next
  case (Cons event events)
  show ?case
    unfolding populateFlags.simps Let_def Cons.IH
    by (auto simp: CreateEvent_def DeleteEvent_def ModifyEvent_def RenameEvent_def)
qed

lemma dom_validateWatchFlags:
  assumes "validateWatchFlags toLower events = Inr M"
  shows "dom M = (if ''all'' \<in> toLower ` set events then dom ValidEvents
                  else toLower ` set events)"
proof -
  from assms obtain c where c: "checkEvents toLower events False = Inr c"
    and M: "M = (if c then ValidEvents else populateFlags toLower events Map.empty)"
    by (auto simp: validateWatchFlags_def split: if_splits sum.splits)
  from checkEvents_Inr [OF c]
  have c_eq: "c = (''all'' \<in> toLower ` set events)"
    and valid: "\<forall>x \<in> toLower ` set events. x = ''all'' \<or> x \<in> dom ValidEvents"
    by auto
  show ?thesis
  proof (cases c)
    case True
    with M c_eq show ?thesis by simp
  next
    case False
    have sub: "toLower ` set events \<subseteq> dom ValidEvents"
    proof
      fix x assume x: "x \<in> toLower ` set events"
      with valid have "x = ''all'' \<or> x \<in> dom ValidEvents" by (rule bspec)
      moreover from c_eq False have "''all'' \<notin> toLower ` set events" by simp
      with x have "x \<noteq> ''all''" by metis
      ultimately show "x \<in> dom ValidEvents" by simp
    qed
    have "dom M = toLower ` set events \<inter> dom ValidEvents"
      using False M by (simp add: dom_populateFlags dom_ValidEvents)
    with sub c_eq False show ?thesis by auto
  qed
qed

lemma checkEventType_ofKind:
  assumes "ofKind k e"
  shows "checkEventType M e = (k \<noteq> AttributeChange \<and> kindName k \<in> dom M)"
  using assms
  by (cases k)
     (auto simp: ofKind_def checkEventType_def CreateEvent_def DeleteEvent_def ModifyEvent_def
        RenameEvent_def)

text \<open>
  C3: for a raw event of kind \<open>k\<close> among create, modify, delete and rename, and a mask
  \<open>M\<close> that \<^verbatim>\<open>validateWatchFlags\<close> returned for the configured event names, the
  classifier admits the event if and only if the key of \<open>k\<close> is in \<open>M\<close>, which is the
  case exactly when the (lower-cased) names list \<open>k\<close> or \<^verbatim>\<open>"all"\<close>; an attribute change
  is never admitted, whatever the mask, the mask of \<^verbatim>\<open>"all"\<close> included.
\<close>

theorem checkEventType_admits_iff_member:
  assumes "validateWatchFlags toLower events = Inr M" and "ofKind k e"
  shows "checkEventType M e = (k \<noteq> AttributeChange \<and> kindName k \<in> dom M) \<and>
         (kindName k \<in> dom M) =
           (k \<noteq> AttributeChange \<and>
            (kindName k \<in> toLower ` set events \<or> ''all'' \<in> toLower ` set events)) \<and>
         (k = AttributeChange \<longrightarrow> \<not> checkEventType M e \<and> \<not> checkEventType ValidEvents e)"
proof -
  have valid: "\<forall>x \<in> toLower ` set events. x = ''all'' \<or> x \<in> dom ValidEvents"
    using assms(1) checkEvents_Inr [of toLower events False]
    by (auto simp: validateWatchFlags_def split: if_splits sum.splits)
  have attrib: "''attrib'' \<notin> toLower ` set events"
    using valid by (auto simp: dom_ValidEvents)
  have "(kindName k \<in> dom M) =
          (k \<noteq> AttributeChange \<and>
           (kindName k \<in> toLower ` set events \<or> ''all'' \<in> toLower ` set events))"
    unfolding dom_validateWatchFlags [OF assms(1)] using attrib
    by (cases k) (auto simp: dom_ValidEvents)
  then show ?thesis
    using checkEventType_ofKind [OF assms(2), of M] checkEventType_ofKind [OF assms(2), of ValidEvents]
    by auto
qed

theorem checkEventType_admits_iff_member_witness:
  "validateWatchFlags (\<lambda>s. s) [''modify'', ''delete''] =
     Inr [''modify'' \<mapsto> ModifyEvent, ''delete'' \<mapsto> DeleteEvent] \<and>
   ofKind Modify (rawEvent True Modify ''/tmp/a.txt'') \<and>
   checkEventType [''modify'' \<mapsto> ModifyEvent, ''delete'' \<mapsto> DeleteEvent]
     (rawEvent True Modify ''/tmp/a.txt'') \<and>
   ofKind AttributeChange (rawEvent True AttributeChange ''/tmp/a.txt'') \<and>
   \<not> checkEventType [''modify'' \<mapsto> ModifyEvent, ''delete'' \<mapsto> DeleteEvent]
     (rawEvent True AttributeChange ''/tmp/a.txt'')"
proof -
  have v: "validateWatchFlags (\<lambda>s. s) [''modify'', ''delete''] =
     Inr [''modify'' \<mapsto> ModifyEvent, ''delete'' \<mapsto> DeleteEvent]"
    by (simp add: validateWatchFlags_def ValidEvents_def CreateEvent_def DeleteEvent_def
          ModifyEvent_def RenameEvent_def Let_def)
  have k1: "ofKind Modify (rawEvent True Modify ''/tmp/a.txt'')"
    by (simp add: ofKind_def rawEvent_def)
  have k2: "ofKind AttributeChange (rawEvent True AttributeChange ''/tmp/a.txt'')"
    by (simp add: ofKind_def rawEvent_def)
  show ?thesis
    using v k1 k2 checkEventType_admits_iff_member [OF v k1]
      checkEventType_admits_iff_member [OF v k2]
    by simp
qed

section \<open>Properties of the command runner\<close>


lemma Replace_no_percent:
  assumes "CHR ''%'' \<notin> set s" and "hd old = CHR ''%''" and "old \<noteq> []"
  shows "Replace (s @ r) old new = s @ Replace r old new"
  using assms
proof (induction s)
  case Nil
  then show ?case by simp
next
  case (Cons c s)
  from Cons.prems have "\<not> prefix old ((c # s) @ r)"
    by (cases old) auto
  with Cons show ?case by (subst Replace.simps) simp
qed

lemma Replace_at_old:
  assumes "old \<noteq> []"
  shows "Replace (old @ r) old new = new @ Replace r old new"
  using assms by (subst Replace.simps) simp

lemma Var_facts:
  "VarFilename \<noteq> []" "VarEventType \<noteq> []"
  "hd VarFilename = CHR ''%''" "hd VarEventType = CHR ''%''"
  by (simp_all add: VarFilename_def VarEventType_def)

lemma Replace_skip_type_token:
  "Replace (VarEventType @ r) VarFilename new = VarEventType @ Replace r VarFilename new"
proof -
  have "Replace (CHR ''%'' # CHR ''t'' # r) ''%f'' new = CHR ''%'' # Replace (CHR ''t'' # r) ''%f'' new"
    by (subst Replace.simps) simp
  also have "Replace (CHR ''t'' # r) ''%f'' new = CHR ''t'' # Replace r ''%f'' new"
    by (subst Replace.simps) simp
  finally show ?thesis by (simp add: VarFilename_def VarEventType_def)
qed

lemma Replace_path_pass:
  "CHR ''%'' \<notin> set p \<Longrightarrow> list_all (\<lambda>s. CHR ''%'' \<notin> set s) (literals segs) \<Longrightarrow>
   Replace (template segs) VarFilename p = instantiate segs p VarEventType"
proof (induction segs)
  case Nil
  then show ?case by (subst Replace.simps) simp
next
  case (Cons seg segs)
  then show ?case
    by (cases seg) (simp_all add: Replace_no_percent Replace_at_old Replace_skip_type_token Var_facts)
qed

lemma Replace_type_pass:
  "CHR ''%'' \<notin> set p \<Longrightarrow> list_all (\<lambda>s. CHR ''%'' \<notin> set s) (literals segs) \<Longrightarrow>
   Replace (instantiate segs p VarEventType) VarEventType ty = instantiate segs p ty"
proof (induction segs)
  case Nil
  then show ?case by (subst Replace.simps) simp
next
  case (Cons seg segs)
  then show ?case
    by (cases seg) (simp_all add: Replace_no_percent Replace_at_old Var_facts)
qed

lemma Split_nonempty: "Split s c \<noteq> []"
  by (induction s) (auto split: list.splits)

lemma getEventType_ofKind: "ofKind k evt \<Longrightarrow> k \<noteq> AttributeChange \<Longrightarrow> getEventType evt = entryName k"
  by (cases k) (auto simp: ofKind_def getEventType_def)

lemma evaluateVariables_template:
  assumes "list_all (\<lambda>s. CHR ''%'' \<notin> set s) (literals segs)" and "CHR ''%'' \<notin> set (Name evt)"
  shows "evaluateVariables (template segs) evt = instantiate segs (Name evt) (getEventType evt)"
  using assms by (simp add: evaluateVariables_def Replace_path_pass Replace_type_pass)

lemma execute_args:
  "executed (snd (execute env command evt w)) = executed w @ [Split (evaluateVariables command evt) CHR '' '']"
  using Split_nonempty [of "evaluateVariables command evt" "CHR '' ''"]
  by (cases "Split (evaluateVariables command evt) CHR '' ''") (simp_all add: execute_def Let_def)

text \<open>
  C1, as stated, fails: the type token is replaced by the name \<^verbatim>\<open>getEventType\<close> gives,
  \<^verbatim>\<open>ENTRY_MODIFY\<close> for a modify event, not by \<^verbatim>\<open>modify\<close>; and the second replacement
  runs over the result of the first, so a \<^verbatim>\<open>%t\<close> inside the path is replaced too and
  the path token is then not replaced by the event's path.
\<close>

theorem evaluateVariables_type_name_counterexample:
  "evaluateVariables ''echo %f %t'' (rawEvent True Modify ''/tmp/a.txt'') \<noteq>
     ''echo /tmp/a.txt modify'' \<and>
   evaluateVariables ''cat %f'' (rawEvent True Modify ''/tmp/%t.txt'') \<noteq> ''cat /tmp/%t.txt''"
  by code_simp

text \<open>
  C1 (amended): for every command template whose \<^verbatim>\<open>%\<close> characters all belong to path
  and type tokens, and every event of kind create, modify, delete or rename whose path
  holds no \<^verbatim>\<open>%\<close>, the command runner replaces every path token by the event's path
  and every type token by \<^verbatim>\<open>ENTRY_CREATE\<close>, \<^verbatim>\<open>ENTRY_MODIFY\<close>, \<^verbatim>\<open>ENTRY_DELETE\<close> or
  \<^verbatim>\<open>ENTRY_RENAME\<close>, and splits the result at the spaces into the arguments of the
  command it runs; for \<^verbatim>\<open>echo %f %t\<close> and a modify event on \<^verbatim>\<open>/tmp/a.txt\<close> that is
  \<^verbatim>\<open>echo /tmp/a.txt ENTRY_MODIFY\<close>.
\<close>

theorem evaluateVariables_replaces_tokens:
  assumes "list_all (\<lambda>s. CHR ''%'' \<notin> set s) (literals segs)"
    and "CHR ''%'' \<notin> set (Name evt)"
    and "ofKind k evt" and "k \<noteq> AttributeChange"
  shows "evaluateVariables (template segs) evt = instantiate segs (Name evt) (entryName k) \<and>
         executed (snd (execute env (template segs) evt w)) =
           executed w @ [Split (instantiate segs (Name evt) (entryName k)) CHR '' '']"
  using evaluateVariables_template [OF assms(1,2)] getEventType_ofKind [OF assms(3,4)]
  by (simp add: execute_args)

theorem evaluateVariables_replaces_tokens_witness:
  "list_all (\<lambda>s. CHR ''%'' \<notin> set s) (literals [Lit ''echo '', PathToken, Lit '' '', TypeToken]) \<and>
   CHR ''%'' \<notin> set (Name (rawEvent True Modify ''/tmp/a.txt'')) \<and>
   ofKind Modify (rawEvent True Modify ''/tmp/a.txt'') \<and>
   evaluateVariables ''echo %f %t'' (rawEvent True Modify ''/tmp/a.txt'') =
     ''echo /tmp/a.txt ENTRY_MODIFY'' \<and>
   executed (snd (execute (scriptedEnv (\<lambda>t. Inr 5) (\<lambda>t. Inr 7)) ''echo %f %t''
       (rawEvent True Modify ''/tmp/a.txt'') (newWorker [''echo %f %t''] 0 ValidEvents (\<lambda>p. True)))) =
     [[''echo'', ''/tmp/a.txt'', ''ENTRY_MODIFY'']]"
proof -
  let ?segs = "[Lit ''echo '', PathToken, Lit '' '', TypeToken]"
  let ?evt = "rawEvent True Modify ''/tmp/a.txt''"
  have h1: "list_all (\<lambda>s. CHR ''%'' \<notin> set s) (literals ?segs)" by simp
  have h2: "CHR ''%'' \<notin> set (Name ?evt)" by (simp add: rawEvent_def)
  have h3: "ofKind Modify ?evt" by (simp add: ofKind_def rawEvent_def)
  have h4: "Modify \<noteq> AttributeChange" by simp
  have t: "template ?segs = ''echo %f %t''" by (simp add: VarFilename_def VarEventType_def)
  have n: "Name ?evt = ''/tmp/a.txt''" by (simp add: rawEvent_def)
  have i: "instantiate ?segs ''/tmp/a.txt'' (entryName Modify) = ''echo /tmp/a.txt ENTRY_MODIFY''"
    by simp
  have sp: "Split ''echo /tmp/a.txt ENTRY_MODIFY'' CHR '' '' = [''echo'', ''/tmp/a.txt'', ''ENTRY_MODIFY'']"
    by simp
  have ex0: "executed (newWorker [''echo %f %t''] 0 ValidEvents (\<lambda>p. True)) = []"
    by (simp add: newWorker_def)
  note th = evaluateVariables_replaces_tokens [OF h1 h2 h3 h4,
        of "scriptedEnv (\<lambda>t. Inr 5) (\<lambda>t. Inr 7)" "newWorker [''echo %f %t''] 0 ValidEvents (\<lambda>p. True)",
        unfolded t n i sp ex0]
  from h1 h2 h3 th show ?thesis by simp
qed

section \<open>Termination of the poll loop\<close>

lemma waitLoop_step:
  assumes ok: "sizeRead env f t k = Inr cur" and ns: "\<not> stablePoll env f t k"
  shows "waitLoop env f (previousSize env f t k) (counterBefore env f t k) (t + k) =
         waitLoop env f (previousSize env f t (Suc k)) (counterBefore env f t (Suc k)) (t + Suc k)"
proof -
  have prev: "previousSize env f t (Suc k) = cur"
    using ok by (simp add: previousSize_def)
  have rd: "getFileSize env f (t + k) = Inr cur"
    using ok by (simp add: sizeRead_def)
  show ?thesis
  proof (cases "previousSize env f t k = cur")
    case True
    then have unch: "unchangedPoll env f t k" using ok by (simp add: unchangedPoll_def)
    with ns have c0: "counterBefore env f t k = 0"
      by (auto simp: stablePoll_def counterBefore_def)
    have c1: "counterBefore env f t (Suc k) = 1"
      using unch by (simp add: counterBefore_def)
    show ?thesis
      by (subst waitLoop.simps) (simp add: rd True c0 c1 prev FileCloseCheckThreshold_def)
  next
    case False
    then have "\<not> unchangedPoll env f t k" using ok by (simp add: unchangedPoll_def)
    then have c1: "counterBefore env f t (Suc k) = 0"
      by (simp add: counterBefore_def)
    show ?thesis
      by (subst waitLoop.simps) (simp add: rd False c1 prev)
  qed
qed

lemma waitLoop_unroll:
  assumes "\<forall>i<k. \<not> isl (sizeRead env f t i)" and "\<forall>i<k. \<not> stablePoll env f t i"
  shows "waitForFileClose env f t =
         waitLoop env f (previousSize env f t k) (counterBefore env f t k) (t + k)"
  using assms
proof (induction k)
  case 0
  show ?case by (simp add: waitForFileClose_def previousSize_def counterBefore_def)
next
  case (Suc k)
  from Suc.prems have "\<not> isl (sizeRead env f t k)" by simp
  then obtain cur where cur: "sizeRead env f t k = Inr cur"
    by (cases "sizeRead env f t k") auto
  from Suc.prems have ns: "\<not> stablePoll env f t k" by simp
  have "waitForFileClose env f t =
          waitLoop env f (previousSize env f t k) (counterBefore env f t k) (t + k)"
    using Suc by simp
  also note waitLoop_step [OF cur ns]
  finally show ?case .
qed

lemma waitLoop_stop_stable:
  assumes "stablePoll env f t n"
  shows "waitLoop env f (previousSize env f t n) (counterBefore env f t n) (t + n) =
         Some (None, Suc (t + n))"
proof -
  from assms have n: "1 \<le> n" and u1: "unchangedPoll env f t (n - 1)" and u: "unchangedPoll env f t n"
    by (auto simp: stablePoll_def)
  have rd: "getFileSize env f (t + n) = Inr (previousSize env f t n)"
    using u by (simp add: unchangedPoll_def sizeRead_def)
  have c: "counterBefore env f t n = 1" using n u1 by (simp add: counterBefore_def)
  show ?thesis
    by (subst waitLoop.simps) (simp add: rd c FileCloseCheckThreshold_def)
qed

lemma waitLoop_stop_error:
  assumes "sizeRead env f t n = Inl e"
  shows "waitLoop env f ls c (t + n) = Some (Some e, Suc (t + n))"
  using assms by (subst waitLoop.simps) (simp add: sizeRead_def)

lemma waitLoop_never_aux:
  assumes ok: "\<forall>i. \<not> isl (sizeRead env f t i)" and ns: "\<forall>n. \<not> stablePoll env f t n"
    and run: "waitLoop env0 f0 ls0 c0 t0 = Some r0"
  shows "\<forall>k. env0 = env \<and> f0 = f \<and> ls0 = previousSize env f t k \<and>
             c0 = counterBefore env f t k \<and> t0 = t + k \<longrightarrow> False"
proof (rule waitLoop.raw_induct
    [where P = "\<lambda>env' f' ls c t' r. \<forall>k. env' = env \<and> f' = f \<and> ls = previousSize env f t k \<and>
                   c = counterBefore env f t k \<and> t' = t + k \<longrightarrow> False", OF _ run])
  fix wl env' f' ls c t' r
  assume IH: "\<And>e' f' ls c t' r. wl e' f' ls c t' = Some r \<Longrightarrow>
                \<forall>k. e' = env \<and> f' = f \<and> ls = previousSize env f t k \<and>
                    c = counterBefore env f t k \<and> t' = t + k \<longrightarrow> False"
    and step: "(case getFileSize env' f' t' of
                  Inl errFilesize \<Rightarrow> Some (Some errFilesize, Suc t')
                | Inr currentSize \<Rightarrow>
                    if ls = currentSize
                    then if FileCloseCheckThreshold \<le> c + 1 then Some (None, Suc t')
                         else wl env' f' currentSize (c + 1) (Suc t')
                    else wl env' f' currentSize 0 (Suc t')) = Some r"
  show "\<forall>k. env' = env \<and> f' = f \<and> ls = previousSize env f t k \<and>
            c = counterBefore env f t k \<and> t' = t + k \<longrightarrow> False"
  proof (intro allI impI)
    fix k
    assume "env' = env \<and> f' = f \<and> ls = previousSize env f t k \<and>
            c = counterBefore env f t k \<and> t' = t + k"
    then have e: "env' = env" "f' = f" and ls: "ls = previousSize env f t k"
      and c: "c = counterBefore env f t k" and t': "t' = t + k" by auto
    from ok have "\<not> isl (sizeRead env f t k)" by simp
    then obtain cur where cur: "sizeRead env f t k = Inr cur"
      by (cases "sizeRead env f t k") auto
    then have rd: "getFileSize env f (t + k) = Inr cur" by (simp add: sizeRead_def)
    have prev: "previousSize env f t (Suc k) = cur"
      using cur by (simp add: previousSize_def)
    from ns have nsk: "\<not> stablePoll env f t k" by simp
    show False
    proof (cases "previousSize env f t k = cur")
      case True
      then have unch: "unchangedPoll env f t k" using cur by (simp add: unchangedPoll_def)
      with nsk have c0: "counterBefore env f t k = 0"
        by (auto simp: stablePoll_def counterBefore_def)
      have c1: "counterBefore env f t (Suc k) = 1"
        using unch by (simp add: counterBefore_def)
      from step have "wl env f cur 1 (Suc (t + k)) = Some r"
        by (simp add: e ls c t' rd True c0 FileCloseCheckThreshold_def)
      from IH [OF this] have "env = env \<and> f = f \<and> cur = previousSize env f t (Suc k) \<and>
             1 = counterBefore env f t (Suc k) \<and> Suc (t + k) = t + Suc k \<longrightarrow> False"
        by (rule spec)
      then show False by (simp add: prev c1)
    next
      case False
      then have "\<not> unchangedPoll env f t k" using cur by (simp add: unchangedPoll_def)
      then have c1: "counterBefore env f t (Suc k) = 0"
        by (simp add: counterBefore_def)
      from step have "wl env f cur 0 (Suc (t + k)) = Some r"
        by (simp add: e ls c t' rd False)
      from IH [OF this] have "env = env \<and> f = f \<and> cur = previousSize env f t (Suc k) \<and>
             0 = counterBefore env f t (Suc k) \<and> Suc (t + k) = t + Suc k \<longrightarrow> False"
        by (rule spec)
      then show False by (simp add: prev c1)
    qed
  qed
qed

lemma waitLoop_never:
  assumes ok: "\<forall>i. \<not> isl (sizeRead env f t i)" and ns: "\<forall>n. \<not> stablePoll env f t n"
  shows "waitForFileClose env f t = None"
proof (cases "waitForFileClose env f t")
  case None
  then show ?thesis .
next
  case (Some r)
  then have "waitLoop env f 0 0 t = Some r" by (simp add: waitForFileClose_def)
  from waitLoop_never_aux [OF ok ns this]
  have "env = env \<and> f = f \<and> 0 = previousSize env f t 0 \<and> 0 = counterBefore env f t 0 \<and>
        t = t + 0 \<longrightarrow> False"
    by (rule spec)
  then have False by (simp add: previousSize_def counterBefore_def)
  then show ?thesis ..
qed


lemma waitForFileClose_first_stable:
  assumes ok: "\<forall>i\<le>n. \<not> isl (sizeRead env f t i)" and st: "stablePoll env f t n"
    and first: "\<forall>m<n. \<not> stablePoll env f t m"
  shows "waitForFileClose env f t = Some (None, Suc (t + n))"
proof -
  from ok have "\<forall>i<n. \<not> isl (sizeRead env f t i)" by simp
  from waitLoop_unroll [OF this first] waitLoop_stop_stable [OF st] show ?thesis by simp
qed

lemma waitForFileClose_first_error:
  assumes ok: "\<forall>i<n. \<not> isl (sizeRead env f t i)" and first: "\<forall>m<n. \<not> stablePoll env f t m"
    and err: "sizeRead env f t n = Inl e"
  shows "waitForFileClose env f t = Some (Some e, Suc (t + n))"
  using waitLoop_unroll [OF ok first] waitLoop_stop_error [OF err] by simp

lemma stablePoll_reads: "stablePoll env f t n \<Longrightarrow> \<not> isl (sizeRead env f t n)"
  by (simp add: stablePoll_def unchangedPoll_def)

lemma waitForFileClose_stable_success:
  assumes ok: "\<forall>i\<le>n. \<not> isl (sizeRead env f t i)" and st: "stablePoll env f t n"
  shows "\<exists>t'. waitForFileClose env f t = Some (None, t')"
proof -
  define n0 where "n0 = (LEAST m. stablePoll env f t m)"
  have st0: "stablePoll env f t n0" unfolding n0_def using st by (rule LeastI)
  have le: "n0 \<le> n" unfolding n0_def using st by (rule Least_le)
  have first: "\<forall>m<n0. \<not> stablePoll env f t m"
    unfolding n0_def using not_less_Least by blast
  from ok le have "\<forall>i\<le>n0. \<not> isl (sizeRead env f t i)" by simp
  from waitForFileClose_first_stable [OF this st0 first] show ?thesis by blast
qed

lemma waitForFileClose_success_stable:
  assumes "waitForFileClose env f t = Some (None, t')"
  shows "\<exists>n. (\<forall>i\<le>n. \<not> isl (sizeRead env f t i)) \<and> stablePoll env f t n"
proof (rule ccontr)
  assume no: "\<not> (\<exists>n. (\<forall>i\<le>n. \<not> isl (sizeRead env f t i)) \<and> stablePoll env f t n)"
  show False
  proof (cases "\<exists>m. isl (sizeRead env f t m)")
    case True
    define m0 where "m0 = (LEAST m. isl (sizeRead env f t m))"
    from True have bad: "isl (sizeRead env f t m0)" unfolding m0_def by (rule LeastI_ex)
    have ok: "\<forall>i<m0. \<not> isl (sizeRead env f t i)"
      unfolding m0_def using not_less_Least by blast
    have first: "\<forall>m<m0. \<not> stablePoll env f t m"
    proof (intro allI impI)
      fix m assume "m < m0"
      with ok have "\<forall>i\<le>m. \<not> isl (sizeRead env f t i)" by simp
      with no show "\<not> stablePoll env f t m" by blast
    qed
    from bad obtain e where "sizeRead env f t m0 = Inl e"
      by (cases "sizeRead env f t m0") auto
    from waitForFileClose_first_error [OF ok first this] assms show False by simp
  next
    case False
    then have ok: "\<forall>i. \<not> isl (sizeRead env f t i)" by simp
    with no have "\<forall>n. \<not> stablePoll env f t n" by blast
    from waitLoop_never [OF ok this] assms show False by simp
  qed
qed

text \<open>Three successive reads of the same size, with every read up to them succeeding,
  are enough for the loop to return without error, whatever the sizes before.\<close>

lemma waitForFileClose_three_equal_reads:
  assumes "\<forall>i\<le>Suc (Suc n). \<not> isl (sizeRead env f t i)"
    and "sizeRead env f t n = Inr s" and "sizeRead env f t (Suc n) = Inr s"
    and "sizeRead env f t (Suc (Suc n)) = Inr s"
  shows "\<exists>t'. waitForFileClose env f t = Some (None, t')"
proof -
  have "stablePoll env f t (Suc (Suc n))"
    using assms(2-4) by (simp add: stablePoll_def unchangedPoll_def previousSize_def)
  with assms(1) show ?thesis by (rule waitForFileClose_stable_success)
qed

text \<open>The outcomes of the loop in terms of \<^verbatim>\<open>lastSize\<close>: it returns without error at
  the first stable poll, with the error of the first failing read before that, and not
  at all when neither comes.\<close>

lemma waitForFileClose_outcomes:
  "((\<exists>t'. waitForFileClose env f t = Some (None, t')) =
      (\<exists>n. (\<forall>i\<le>n. \<not> isl (sizeRead env f t i)) \<and> stablePoll env f t n)) \<and>
   (\<forall>n e. (\<forall>i<n. \<not> isl (sizeRead env f t i)) \<and> (\<forall>m<n. \<not> stablePoll env f t m) \<and>
           sizeRead env f t n = Inl e \<longrightarrow>
           waitForFileClose env f t = Some (Some e, Suc (t + n))) \<and>
   ((\<forall>i. \<not> isl (sizeRead env f t i)) \<and> (\<forall>n. \<not> stablePoll env f t n) \<longrightarrow>
      waitForFileClose env f t = None)"
proof (intro conjI allI impI)
  show "(\<exists>t'. waitForFileClose env f t = Some (None, t')) =
      (\<exists>n. (\<forall>i\<le>n. \<not> isl (sizeRead env f t i)) \<and> stablePoll env f t n)"
    using waitForFileClose_success_stable waitForFileClose_stable_success by blast
next
  fix n e
  assume "(\<forall>i<n. \<not> isl (sizeRead env f t i)) \<and> (\<forall>m<n. \<not> stablePoll env f t m) \<and>
           sizeRead env f t n = Inl e"
  then show "waitForFileClose env f t = Some (Some e, Suc (t + n))"
    using waitForFileClose_first_error by blast
next
  assume "(\<forall>i. \<not> isl (sizeRead env f t i)) \<and> (\<forall>n. \<not> stablePoll env f t n)"
  then show "waitForFileClose env f t = None"
    using waitLoop_never by blast
qed

lemma scripted_sizeRead:
  "sizeRead (scriptedEnv sizes sums) f t i = sizes (t + i)"
  by (cases "sizes (t + i)") (simp_all add: sizeRead_def getFileSize_def scriptedEnv_def)

lemma scriptedEnv_fields:
  "osStat (scriptedEnv sizes sums) t p =
     (case sizes t of Inl err \<Rightarrow> Inl err | Inr s \<Rightarrow> Inr \<lparr>Size = s, IsDir = False\<rparr>)"
  "fileChecksum (scriptedEnv sizes sums) t p = sums t"
  "timeNow (scriptedEnv sizes sums) t = int t"
  "watcherWatch (scriptedEnv sizes sums) t p = None"
  "cmdRun (scriptedEnv sizes sums) t args = None"
  "ContinueOnError (scriptedEnv sizes sums) = False"
  by (simp_all add: scriptedEnv_def)










section \<open>Properties of the debouncer\<close>

lemma settlesAt_wait:
  assumes "settlesAt env f t n"
  shows "waitForFileClose env f t = Some (None, Suc (t + n))"
  using assms waitForFileClose_first_stable [of n env f t] by (simp add: settlesAt_def)

lemma pollFailsAt_wait:
  assumes "pollFailsAt env f t n"
  shows "\<exists>e. waitForFileClose env f t = Some (Some e, Suc (t + n))"
proof -
  from assms obtain e where e: "sizeRead env f t n = Inl e"
    by (cases "sizeRead env f t n") (auto simp: pollFailsAt_def)
  from assms have "\<forall>i<n. \<not> isl (sizeRead env f t i)" "\<forall>m<n. \<not> stablePoll env f t m"
    by (simp_all add: pollFailsAt_def)
  from waitForFileClose_first_error [OF this e] show ?thesis by blast
qed

lemma settlesAt_calm:
  assumes "s \<noteq> 0"
  shows "settlesAt (scriptedEnv (\<lambda>t. Inr s) sums) f t 2"
  using assms
  by (auto simp: settlesAt_def stablePoll_def unchangedPoll_def previousSize_def
        scripted_sizeRead less_Suc_eq numeral_2_eq_2)

lemma checkFileContentChanged_fails_closed:
  assumes "waitForFileClose env filename t = Some (werr, t1)"
    and "werr \<noteq> None \<or> isl (getFileSize env filename t1) \<or>
         isl (getContentHash env filename (Suc t1))"
  shows "\<exists>es' t'. checkFileContentChanged env es filename t = Some (False, es', t')"
proof (cases werr)
  case (Some err)
  with assms(1) show ?thesis by (simp add: checkFileContentChanged_def)
next
  case None
  with assms(2) have bad: "isl (getFileSize env filename t1) \<or>
      isl (getContentHash env filename (Suc t1))" by simp
  show ?thesis
  proof (cases "getFileSize env filename t1")
    case (Inl err)
    with None assms(1) show ?thesis
      by (cases "es filename") (simp_all add: checkFileContentChanged_def newFileEntry_def)
  next
    case (Inr s)
    with bad obtain err where "getContentHash env filename (Suc t1) = Inl err"
      by (cases "getContentHash env filename (Suc t1)") auto
    with Inr None assms(1) show ?thesis
      by (cases "es filename")
         (simp_all add: checkFileContentChanged_def newFileEntry_def Let_def)
  qed
qed

lemma checkFileContentChanged_read_failure:
  assumes "pollFailsAt env filename t n \<or>
           settlesAt env filename t n \<and>
             (isl (getFileSize env filename (Suc (t + n))) \<or>
              isl (getContentHash env filename (Suc (Suc (t + n)))))"
  shows "\<exists>es' t'. checkFileContentChanged env es filename t = Some (False, es', t')"
  using assms
proof
  assume "pollFailsAt env filename t n"
  from pollFailsAt_wait [OF this] obtain e
    where "waitForFileClose env filename t = Some (Some e, Suc (t + n))" by blast
  then show ?thesis by (rule checkFileContentChanged_fails_closed) simp
next
  assume a: "settlesAt env filename t n \<and>
             (isl (getFileSize env filename (Suc (t + n))) \<or>
              isl (getContentHash env filename (Suc (Suc (t + n)))))"
  then have w: "waitForFileClose env filename t = Some (None, Suc (t + n))"
    by (simp add: settlesAt_wait)
  from a have b: "(None :: error option) \<noteq> None \<or> isl (getFileSize env filename (Suc (t + n))) \<or>
      isl (getContentHash env filename (Suc (Suc (t + n))))" by simp
  from checkFileContentChanged_fails_closed [OF w b] show ?thesis .
qed

text \<open>
  C5: for a path without a cache entry, when at two consecutive modify events the polls
  settle (every size read succeeds and the size becomes stable) and the size read and
  the checksum read behind them succeed with the same size and the same checksum, the
  debouncer returns "changed" at the first observation, inserting the entry for the
  path, and "unchanged" at the second, leaving the entry as it is.
\<close>

theorem checkFileContentChanged_first_then_unchanged:
  assumes "es filename = None"
    and "settlesAt env filename t n"
    and "getFileSize env filename (Suc (t + n)) = Inr s"
    and "getContentHash env filename (Suc (Suc (t + n))) = Inr h"
    and "settlesAt env filename u m"
    and "getFileSize env filename (Suc (u + m)) = Inr s"
    and "getContentHash env filename (Suc (Suc (u + m))) = Inr h"
  shows "checkFileContentChanged env es filename t =
           Some (True, es(filename \<mapsto> \<lparr>size_fe = s, hash_fe = h\<rparr>), Suc (Suc (Suc (t + n)))) \<and>
         checkFileContentChanged env (es(filename \<mapsto> \<lparr>size_fe = s, hash_fe = h\<rparr>)) filename u =
           Some (False, es(filename \<mapsto> \<lparr>size_fe = s, hash_fe = h\<rparr>), Suc (Suc (Suc (u + m))))"
  using assms(1,3,4,6,7) settlesAt_wait [OF assms(2)] settlesAt_wait [OF assms(5)]
  by (simp add: checkFileContentChanged_def newFileEntry_def Let_def)

text \<open>
  C10: for a path that has a cache entry, when the polls settle, the size read behind
  them succeeds with a value different from the cached size and the checksum read then
  fails, the debouncer returns "unchanged" and the entry holds the new size already: the
  error branch does not restore the cache.
\<close>

theorem checkFileContentChanged_size_kept_on_checksum_error:
  assumes "es filename = Some cached"
    and "settlesAt env filename t n"
    and "getFileSize env filename (Suc (t + n)) = Inr s" and "s \<noteq> size_fe cached"
    and "getContentHash env filename (Suc (Suc (t + n))) = Inl err"
  shows "checkFileContentChanged env es filename t =
           Some (False, es(filename \<mapsto> cached\<lparr>size_fe := s\<rparr>), Suc (Suc (Suc (t + n))))"
  using assms(1,3,4,5) settlesAt_wait [OF assms(2)]
  by (auto simp: checkFileContentChanged_def Let_def)


theorem checkFileContentChanged_first_then_unchanged_witness:
  "checkFileContentChanged (scriptedEnv (\<lambda>t. Inr 5) (\<lambda>t. Inr 7)) Map.empty ''/tmp/a.txt'' 0 =
     Some (True, [''/tmp/a.txt'' \<mapsto> \<lparr>size_fe = 5, hash_fe = 7\<rparr>], 5) \<and>
   checkFileContentChanged (scriptedEnv (\<lambda>t. Inr 5) (\<lambda>t. Inr 7))
     [''/tmp/a.txt'' \<mapsto> \<lparr>size_fe = 5, hash_fe = 7\<rparr>] ''/tmp/a.txt'' 5 =
     Some (False, [''/tmp/a.txt'' \<mapsto> \<lparr>size_fe = 5, hash_fe = 7\<rparr>], 10)"
proof -
  let ?env = "scriptedEnv (\<lambda>t. Inr 5) (\<lambda>t. Inr 7)"
  have e: "(Map.empty :: string \<rightharpoonup> FileEntry) ''/tmp/a.txt'' = None" by simp
  have w1: "settlesAt ?env ''/tmp/a.txt'' 0 2" by (rule settlesAt_calm) simp
  have s1: "getFileSize ?env ''/tmp/a.txt'' (Suc (0 + 2)) = Inr 5"
    by (simp add: getFileSize_def scriptedEnv_def)
  have h1: "getContentHash ?env ''/tmp/a.txt'' (Suc (Suc (0 + 2))) = Inr 7"
    by (simp add: getContentHash_def scriptedEnv_def)
  have w2: "settlesAt ?env ''/tmp/a.txt'' 5 2" by (rule settlesAt_calm) simp
  have s2: "getFileSize ?env ''/tmp/a.txt'' (Suc (5 + 2)) = Inr 5"
    by (simp add: getFileSize_def scriptedEnv_def)
  have h2: "getContentHash ?env ''/tmp/a.txt'' (Suc (Suc (5 + 2))) = Inr 7"
    by (simp add: getContentHash_def scriptedEnv_def)
  from checkFileContentChanged_first_then_unchanged
    [where es = Map.empty and filename = "''/tmp/a.txt''", OF e w1 s1 h1 w2 s2 h2]
  show ?thesis by (simp add: eval_nat_numeral)
qed

theorem checkFileContentChanged_size_kept_on_checksum_error_witness:
  "checkFileContentChanged (scriptedEnv (\<lambda>t. Inr 5) (\<lambda>t. Inl (ErrOS 13)))
     [''/tmp/a.txt'' \<mapsto> \<lparr>size_fe = 4, hash_fe = 7\<rparr>] ''/tmp/a.txt'' 0 =
     Some (False, [''/tmp/a.txt'' \<mapsto> \<lparr>size_fe = 5, hash_fe = 7\<rparr>], 5)"
proof -
  let ?env = "scriptedEnv (\<lambda>t. Inr 5) (\<lambda>t. Inl (ErrOS 13))"
  let ?c = "\<lparr>size_fe = 4, hash_fe = 7\<rparr>"
  have e: "[''/tmp/a.txt'' \<mapsto> ?c] ''/tmp/a.txt'' = Some ?c" by simp
  have w1: "settlesAt ?env ''/tmp/a.txt'' 0 2" by (rule settlesAt_calm) simp
  have s1: "getFileSize ?env ''/tmp/a.txt'' (Suc (0 + 2)) = Inr 5"
    by (simp add: getFileSize_def scriptedEnv_def)
  have d: "(5::int) \<noteq> size_fe ?c" by simp
  have h1: "getContentHash ?env ''/tmp/a.txt'' (Suc (Suc (0 + 2))) = Inl (ErrOS 13)"
    by (simp add: getContentHash_def scriptedEnv_def)
  from checkFileContentChanged_size_kept_on_checksum_error
    [where es = "[''/tmp/a.txt'' \<mapsto> ?c]" and filename = "''/tmp/a.txt''", OF e w1 s1 d h1]
  show ?thesis by (simp add: eval_nat_numeral)
qed

section \<open>Properties of the consumer\<close>

lemma sync_frame:
  "trace (syncWatchersAndCaches env w evt) = trace w"
  "executed (syncWatchersAndCaches env w evt) = executed w"
  "includePatternRegexp (syncWatchersAndCaches env w evt) = includePatternRegexp w"
  "watchFlags (syncWatchersAndCaches env w evt) = watchFlags w"
  "config (syncWatchersAndCaches env w evt) = config w"
  "lastExec (syncWatchersAndCaches env w evt) = lastExec w"
  by (simp_all add: syncWatchersAndCaches_def Let_def callWatch_def callRemoveWatch_def
        split: sum.splits)

lemma execute_frame:
  "trace (snd (execute env command evt w)) = trace w"
  "length (executed (snd (execute env command evt w))) = Suc (length (executed w))"
  by (simp_all add: execute_def Let_def)

lemma runCommands_trace: "trace (runCommands env evt commands w) = trace w"
proof (induction commands arbitrary: w)
  case Nil
  then show ?case by simp
next
  case (Cons command commands)
  show ?case
    using Cons.IH [of "snd (execute env command evt w)"] execute_frame(1) [of env command evt w]
    by (cases "execute env command evt w") auto
qed

lemma stampAndRun_trace: "trace (stampAndRun env w evt) = trace w @ [CommandRunner]"
  by (simp add: stampAndRun_def run_def runCommands_trace consult_def)

lemma handleEvent_pattern_miss:
  assumes "\<not> includePatternRegexp w (Name evt)"
  shows "handleEvent env w evt = Some (consult PatternFilter (synced env w evt))"
  using assms
  by (simp add: handleEvent_def synced_def Let_def checkPatternMatching_def sync_frame consult_def)


lemma execute_executed:
  "\<exists>args. executed (snd (execute env command evt w)) = executed w @ [args]"
  by (simp add: execute_def Let_def)

lemma handleEvent_executed:
  assumes "handleEvent env w evt = Some w'"
    and "CommandRunner \<notin> set (drop (length (trace w)) (trace w'))"
  shows "executed w' = executed w"
  using assms
  by (auto simp: handleEvent_def Let_def checkPatternMatching_def
        sync_frame consult_def stampAndRun_trace
        split: if_splits option.splits)

lemma handleEvent_run_passed:
  assumes "handleEvent env w evt = Some w'"
    and "CommandRunner \<in> set (drop (length (trace w)) (trace w'))"
  shows "includePatternRegexp w (Name evt) \<and> checkEventType (watchFlags w) evt"
  using assms
  by (auto simp: handleEvent_def Let_def checkPatternMatching_def
        sync_frame consult_def stampAndRun_trace
        split: if_splits option.splits)

text \<open>
  C7: for an event whose path does not match the include pattern the consumer ends the
  event after the pattern filter: the command runner is not consulted and no command is
  run, whatever the kind of the event, the mask and the content of the file; and
  whenever the command runner is consulted or a command is run for an event, the event
  has passed both the pattern filter and the classifier.
\<close>

theorem pattern_gate:
  "(\<not> includePatternRegexp w (Name evt) \<longrightarrow>
      (\<exists>w'. handleEvent env w evt = Some w' \<and> executed w' = executed w \<and>
            trace w' = trace w @ [WatchSetSync, PatternFilter])) \<and>
   (\<forall>w'. handleEvent env w evt = Some w' \<and>
        (executed w' \<noteq> executed w \<or>
         CommandRunner \<in> set (drop (length (trace w)) (trace w'))) \<longrightarrow>
        includePatternRegexp w (Name evt) \<and> checkEventType (watchFlags w) evt)"
proof (intro conjI allI impI)
  assume "\<not> includePatternRegexp w (Name evt)"
  then show "\<exists>w'. handleEvent env w evt = Some w' \<and> executed w' = executed w \<and>
            trace w' = trace w @ [WatchSetSync, PatternFilter]"
    by (simp add: handleEvent_pattern_miss synced_def consult_def sync_frame)
next
  fix w'
  assume a: "handleEvent env w evt = Some w' \<and>
        (executed w' \<noteq> executed w \<or>
         CommandRunner \<in> set (drop (length (trace w)) (trace w')))"
  then have "CommandRunner \<in> set (drop (length (trace w)) (trace w'))"
    using handleEvent_executed by blast
  with a show "includePatternRegexp w (Name evt)" "checkEventType (watchFlags w) evt"
    using handleEvent_run_passed by blast+
qed

text \<open>
  C6: for a modify event on a path that is no watched directory, when in the debouncer
  (run where the consumer runs it) the size read of a poll fails before the size has
  settled, or the polls settle and the size read or the checksum read behind them fails,
  the debouncer returns "unchanged", and the consumer ends the event without consulting
  the command runner and without running a command.
\<close>

theorem debouncer_read_failure_runs_nothing:
  assumes "IsModify evt" and "\<not> isDir (synced env w evt) (Name evt)"
    and "pollFailsAt env (Name evt) (debounceTick env w evt) n \<or>
         settlesAt env (Name evt) (debounceTick env w evt) n \<and>
           (isl (getFileSize env (Name evt) (Suc (debounceTick env w evt + n))) \<or>
            isl (getContentHash env (Name evt) (Suc (Suc (debounceTick env w evt + n)))))"
  shows "(\<exists>es t'. checkFileContentChanged env (entries (synced env w evt)) (Name evt)
            (debounceTick env w evt) = Some (False, es, t')) \<and>
         (\<exists>w'. handleEvent env w evt = Some w' \<and> executed w' = executed w \<and>
            CommandRunner \<notin> set (drop (length (trace w)) (trace w')))"
proof -
  from checkFileContentChanged_read_failure [OF assms(3)]
  obtain es t' where d: "checkFileContentChanged env (entries (synced env w evt)) (Name evt)
            (debounceTick env w evt) = Some (False, es, t')" by blast
  have "\<exists>w'. handleEvent env w evt = Some w' \<and>
            CommandRunner \<notin> set (drop (length (trace w)) (trace w'))"
    using d assms(1,2)
    by (auto simp: handleEvent_def synced_def debounceTick_def Let_def checkPatternMatching_def
        sync_frame consult_def isDir_def)
  then obtain w' where w': "handleEvent env w evt = Some w'"
    "CommandRunner \<notin> set (drop (length (trace w)) (trace w'))" by blast
  from handleEvent_executed [OF this] w' d show ?thesis by blast
qed





theorem debouncer_read_failure_runs_nothing_witness:
  "IsModify (rawEvent True Modify ''/tmp/a.txt'') \<and>
   pollFailsAt (scriptedEnv (\<lambda>t. if t = 2 then Inl (ErrOS 2) else Inr 5) (\<lambda>t. Inr 7))
     ''/tmp/a.txt'' (Suc 0) 1 \<and>
   (\<exists>w'. handleEvent (scriptedEnv (\<lambda>t. if t = 2 then Inl (ErrOS 2) else Inr 5) (\<lambda>t. Inr 7))
          (newWorker [''echo %f %t''] 0 ValidEvents (\<lambda>p. True))
          (rawEvent True Modify ''/tmp/a.txt'') = Some w' \<and> executed w' = [])"
proof -
  let ?env = "scriptedEnv (\<lambda>t. if t = 2 then Inl (ErrOS 2) else Inr 5) (\<lambda>t. Inr 7)"
  let ?evt = "rawEvent True Modify ''/tmp/a.txt''"
  let ?w = "newWorker [''echo %f %t''] 0 ValidEvents (\<lambda>p. True)"
  have sy: "synced ?env ?w ?evt = consult WatchSetSync ?w"
    by (simp add: synced_def syncWatchersAndCaches_def rawEvent_def)
  have m: "IsModify ?evt" by (simp add: rawEvent_def)
  have n: "Name ?evt = ''/tmp/a.txt''" by (simp add: rawEvent_def)
  have d: "\<not> isDir (synced ?env ?w ?evt) (Name ?evt)"
    unfolding sy by (simp add: isDir_def consult_def newWorker_def)
  have dt: "debounceTick ?env ?w ?evt = Suc 0"
    unfolding debounceTick_def sy by (simp add: consult_def newWorker_def)
  have pf: "pollFailsAt ?env ''/tmp/a.txt'' (Suc 0) 1"
    by (simp add: pollFailsAt_def stablePoll_def scripted_sizeRead)
  then have bad: "pollFailsAt ?env (Name ?evt) (debounceTick ?env ?w ?evt) 1 \<or>
         settlesAt ?env (Name ?evt) (debounceTick ?env ?w ?evt) 1 \<and>
           (isl (getFileSize ?env (Name ?evt) (Suc (debounceTick ?env ?w ?evt + 1))) \<or>
            isl (getContentHash ?env (Name ?evt) (Suc (Suc (debounceTick ?env ?w ?evt + 1)))))"
    unfolding dt n by (rule disjI1)
  have e0: "executed ?w = []" by (simp add: newWorker_def)
  from debouncer_read_failure_runs_nothing [OF m d bad] m pf e0 show ?thesis
    by auto
qed

theorem pattern_gate_witness:
  "\<not> includePatternRegexp (newWorker [''echo %f %t''] 0 ValidEvents (\<lambda>p. p = ''/tmp/b.txt''))
       (Name (rawEvent True Modify ''/tmp/a.txt'')) \<and>
   (\<exists>w'. handleEvent (scriptedEnv (\<lambda>t. Inr 5) (\<lambda>t. Inr 7))
          (newWorker [''echo %f %t''] 0 ValidEvents (\<lambda>p. p = ''/tmp/b.txt''))
          (rawEvent True Modify ''/tmp/a.txt'') = Some w' \<and> executed w' = [] \<and>
          trace w' = [WatchSetSync, PatternFilter])"
proof -
  let ?env = "scriptedEnv (\<lambda>t. Inr 5) (\<lambda>t. Inr 7)"
  let ?evt = "rawEvent True Modify ''/tmp/a.txt''"
  let ?w = "newWorker [''echo %f %t''] 0 ValidEvents (\<lambda>p. p = ''/tmp/b.txt'')"
  have miss: "\<not> includePatternRegexp ?w (Name ?evt)"
    by (simp add: newWorker_def rawEvent_def)
  have e0: "executed ?w = []" "trace ?w = []" by (simp_all add: newWorker_def)
  from pattern_gate [of ?w ?evt ?env] miss e0 show ?thesis by auto
qed

section \<open>Properties of the watch set\<close>

lemma watchFolderFn_dir:
  assumes "\<forall>t p. watcherWatch env t p = None"
  shows "watchFolderFn env p True None w = (None, registerDir env w p)"
  using assms by (simp add: watchFolderFn_def registerDir_def callWatch_def)

lemma walk_readable:
  assumes ok: "\<forall>t p. watcherWatch env t p = None"
  shows "readable tree \<Longrightarrow>
           walk join (watchFolderFn env) p tree w =
             (None, foldl (registerDir env) w (dirPaths join p tree))"
    and "readableEntries list \<Longrightarrow>
           walkEntries join (watchFolderFn env) p list w =
             (None, foldl (registerDir env) w (dirPathsEntries join p list))"
proof (induction tree and list arbitrary: p w and p w rule: readable_readableEntries.induct)
  case (1 name isdir rderr list)
  then show ?case
    by (cases isdir) (simp_all add: watchFolderFn_dir [OF ok], simp add: watchFolderFn_def)
next
  case 2
  show ?case by simp
next
  case (3 fileInfo list)
  then show ?case by simp
qed

text \<open>A root directory that cannot be read is skipped: nothing is registered and the
  bootstrap returns no error.\<close>

lemma watchFolders_unreadable_root:
  assumes "Recursive (config w)"
  shows "watchFolders join env (Inr (FileTree name True (Some err) list)) w = (None, w)"
  using assms by (simp add: watchFolders_def Walk_def watchFolderFn_def)

lemma foldl_registerDir:
  "watcher (foldl (registerDir env) w ps) = watcher w @ map Watch ps"
  "dirs (foldl (registerDir env) w ps) =
     (\<lambda>q. if q \<in> (\<lambda>p. ''./'' @ p) ` set ps then Some True else dirs w q)"
  "entries (foldl (registerDir env) w ps) = entries w"
  by (induction ps arbitrary: w) (auto simp: registerDir_def callWatch_def)

text \<open>
  C4: when an event for which \<^verbatim>\<open>IsRename()\<close> or \<^verbatim>\<open>IsDelete()\<close> holds (and \<^verbatim>\<open>IsCreate()\<close>
  does not, as for every event of kind rename or delete) targets a member of the watch
  set, the sync step removes that path from the watch set, unregisters it, and deletes
  exactly the cache entries whose path begins with that path followed by the path
  separator; every other cache entry and every other member of the watch set stays as
  it is.
\<close>

theorem removed_directory_purges_cache:
  assumes "\<not> IsCreate evt" and "IsRename evt \<or> IsDelete evt" and "isDir w (Name evt)"
  shows "Name evt \<notin> dom (dirs (syncWatchersAndCaches env w evt)) \<and>
         (\<forall>d. d \<noteq> Name evt \<longrightarrow> dirs (syncWatchersAndCaches env w evt) d = dirs w d) \<and>
         dom (entries w) - dom (entries (syncWatchersAndCaches env w evt)) =
           {p \<in> dom (entries w). prefix (Name evt @ [PathSeparator]) p} \<and>
         dom (entries (syncWatchersAndCaches env w evt)) \<subseteq> dom (entries w) \<and>
         (\<forall>p. \<not> prefix (Name evt @ [PathSeparator]) p \<longrightarrow>
              entries (syncWatchersAndCaches env w evt) p = entries w p) \<and>
         watcher (syncWatchersAndCaches env w evt) = watcher w @ [RemoveWatch (Name evt)]"
  using assms
  by (auto simp: syncWatchersAndCaches_def Let_def callRemoveWatch_def split: if_splits)

theorem removed_directory_purges_cache_witness:
  "isDir ((newWorker [] 0 ValidEvents (\<lambda>p. True))
       \<lparr>dirs := [''/tmp/sub'' \<mapsto> True],
        entries := [''/tmp/sub/a.txt'' \<mapsto> \<lparr>size_fe = 5, hash_fe = 7\<rparr>,
                    ''/tmp/b.txt'' \<mapsto> \<lparr>size_fe = 6, hash_fe = 8\<rparr>]\<rparr>)
     (Name (rawEvent True Delete ''/tmp/sub'')) \<and>
   dirs (syncWatchersAndCaches (scriptedEnv (\<lambda>t. Inr 5) (\<lambda>t. Inr 7))
     ((newWorker [] 0 ValidEvents (\<lambda>p. True))
       \<lparr>dirs := [''/tmp/sub'' \<mapsto> True],
        entries := [''/tmp/sub/a.txt'' \<mapsto> \<lparr>size_fe = 5, hash_fe = 7\<rparr>,
                    ''/tmp/b.txt'' \<mapsto> \<lparr>size_fe = 6, hash_fe = 8\<rparr>]\<rparr>)
     (rawEvent True Delete ''/tmp/sub'')) ''/tmp/sub'' = None \<and>
   entries (syncWatchersAndCaches (scriptedEnv (\<lambda>t. Inr 5) (\<lambda>t. Inr 7))
     ((newWorker [] 0 ValidEvents (\<lambda>p. True))
       \<lparr>dirs := [''/tmp/sub'' \<mapsto> True],
        entries := [''/tmp/sub/a.txt'' \<mapsto> \<lparr>size_fe = 5, hash_fe = 7\<rparr>,
                    ''/tmp/b.txt'' \<mapsto> \<lparr>size_fe = 6, hash_fe = 8\<rparr>]\<rparr>)
     (rawEvent True Delete ''/tmp/sub'')) ''/tmp/b.txt'' = Some \<lparr>size_fe = 6, hash_fe = 8\<rparr>"
proof -
  let ?env = "scriptedEnv (\<lambda>t. Inr 5) (\<lambda>t. Inr 7)"
  let ?w = "(newWorker [] 0 ValidEvents (\<lambda>p. True))
       \<lparr>dirs := [''/tmp/sub'' \<mapsto> True],
        entries := [''/tmp/sub/a.txt'' \<mapsto> \<lparr>size_fe = 5, hash_fe = 7\<rparr>,
                    ''/tmp/b.txt'' \<mapsto> \<lparr>size_fe = 6, hash_fe = 8\<rparr>]\<rparr>"
  let ?evt = "rawEvent True Delete ''/tmp/sub''"
  have n: "Name ?evt = ''/tmp/sub''" by (simp add: rawEvent_def)
  have h1: "\<not> IsCreate ?evt" by (simp add: rawEvent_def)
  have h2: "IsRename ?evt \<or> IsDelete ?evt" by (simp add: rawEvent_def)
  have h3: "isDir ?w (Name ?evt)" by (simp add: isDir_def n)
  have p: "\<not> prefix (Name ?evt @ [PathSeparator]) ''/tmp/b.txt''"
    by (simp add: n PathSeparator_def)
  have e: "entries ?w ''/tmp/b.txt'' = Some \<lparr>size_fe = 6, hash_fe = 8\<rparr>" by simp
  note th = removed_directory_purges_cache [OF h1 h2 h3, of ?env]
  from th have 1: "dirs (syncWatchersAndCaches ?env ?w ?evt) ''/tmp/sub'' = None"
    unfolding n by blast
  from th p have "entries (syncWatchersAndCaches ?env ?w ?evt) ''/tmp/b.txt'' =
      entries ?w ''/tmp/b.txt''" by blast
  with e have 2: "entries (syncWatchersAndCaches ?env ?w ?evt) ''/tmp/b.txt'' =
      Some \<lparr>size_fe = 6, hash_fe = 8\<rparr>" by simp
  from h3 1 2 show ?thesis by blast
qed

lemma sync_Recursive:
  "syncWatchersAndCaches env (w\<lparr>config := (config w)\<lparr>Recursive := b\<rparr>\<rparr>) evt =
     (syncWatchersAndCaches env w evt)\<lparr>config := (config w)\<lparr>Recursive := b\<rparr>\<rparr>"
  by (simp add: syncWatchersAndCaches_def Let_def callWatch_def callRemoveWatch_def isDir_def
        split: sum.splits cong: if_cong)

text \<open>
  C9: on a create event whose target stats as a directory, the sync step adds the
  directory to the watch set and registers it with the watcher, whatever the recursive
  flag; the sync step does not read the flag at all. The flag decides the bootstrap
  only: without it \<^verbatim>\<open>watchFolders\<close> registers the root alone and leaves the watch set as
  it is, with it \<^verbatim>\<open>watchFolders\<close> walks the tree (and, when every directory can be read
  and every registration succeeds, registers every directory of the tree).
\<close>

theorem created_directory_watched:
  assumes "IsCreate evt" and "osStat env (tick w) (Name evt) = Inr stat" and "IsDir stat"
  shows "dirs (syncWatchersAndCaches env w evt) = (dirs w)(Name evt \<mapsto> True) \<and>
         watcher (syncWatchersAndCaches env w evt) = watcher w @ [Watch (Name evt)] \<and>
         syncWatchersAndCaches env (w\<lparr>config := (config w)\<lparr>Recursive := b\<rparr>\<rparr>) evt =
           (syncWatchersAndCaches env w evt)\<lparr>config := (config w)\<lparr>Recursive := b\<rparr>\<rparr> \<and>
         (\<not> Recursive (config w) \<longrightarrow>
            watcher (snd (watchFolders join env root w)) = watcher w @ [Watch (path w)] \<and>
            dirs (snd (watchFolders join env root w)) = dirs w) \<and>
         (Recursive (config w) \<and> root = Inr tree \<and> readable tree \<and>
          (\<forall>t p. watcherWatch env t p = None) \<longrightarrow>
            fst (watchFolders join env root w) = None \<and>
            watcher (snd (watchFolders join env root w)) =
              watcher w @ map Watch (dirPaths join (path w) tree) \<and>
            dirs (snd (watchFolders join env root w)) =
              (\<lambda>q. if q \<in> (\<lambda>p. ''./'' @ p) ` set (dirPaths join (path w) tree) then Some True
                   else dirs w q))"
proof (intro conjI impI)
  show "dirs (syncWatchersAndCaches env w evt) = (dirs w)(Name evt \<mapsto> True)"
    using assms by (simp add: syncWatchersAndCaches_def Let_def callWatch_def)
  show "watcher (syncWatchersAndCaches env w evt) = watcher w @ [Watch (Name evt)]"
    using assms by (simp add: syncWatchersAndCaches_def Let_def callWatch_def)
  show "syncWatchersAndCaches env (w\<lparr>config := (config w)\<lparr>Recursive := b\<rparr>\<rparr>) evt =
           (syncWatchersAndCaches env w evt)\<lparr>config := (config w)\<lparr>Recursive := b\<rparr>\<rparr>"
    by (rule sync_Recursive)
next
  assume "\<not> Recursive (config w)"
  then show "watcher (snd (watchFolders join env root w)) = watcher w @ [Watch (path w)]"
    and "dirs (snd (watchFolders join env root w)) = dirs w"
    by (simp_all add: watchFolders_def callWatch_def)
next
  assume a: "Recursive (config w) \<and> root = Inr tree \<and> readable tree \<and>
          (\<forall>t p. watcherWatch env t p = None)"
  then have wf: "watchFolders join env root w =
      (None, foldl (registerDir env) w (dirPaths join (path w) tree))"
    by (simp add: watchFolders_def Walk_def walk_readable)
  show "fst (watchFolders join env root w) = None"
    and "watcher (snd (watchFolders join env root w)) =
              watcher w @ map Watch (dirPaths join (path w) tree)"
    and "dirs (snd (watchFolders join env root w)) =
              (\<lambda>q. if q \<in> (\<lambda>p. ''./'' @ p) ` set (dirPaths join (path w) tree) then Some True
                   else dirs w q)"
    by (simp_all add: wf foldl_registerDir)
qed


theorem created_directory_watched_witness:
  "IsCreate (rawEvent True Create ''/tmp/sub'') \<and>
   \<not> Recursive (config (newWorker [] 0 ValidEvents (\<lambda>p. True))) \<and>
   dirs (syncWatchersAndCaches
          ((scriptedEnv (\<lambda>t. Inr 5) (\<lambda>t. Inr 7))\<lparr>osStat := \<lambda>t p. Inr \<lparr>Size = 4096, IsDir = True\<rparr>\<rparr>)
          (newWorker [] 0 ValidEvents (\<lambda>p. True)) (rawEvent True Create ''/tmp/sub'')) =
     [''/tmp/sub'' \<mapsto> True] \<and>
   watcher (syncWatchersAndCaches
          ((scriptedEnv (\<lambda>t. Inr 5) (\<lambda>t. Inr 7))\<lparr>osStat := \<lambda>t p. Inr \<lparr>Size = 4096, IsDir = True\<rparr>\<rparr>)
          (newWorker [] 0 ValidEvents (\<lambda>p. True)) (rawEvent True Create ''/tmp/sub'')) =
     [Watch ''/tmp/sub''] \<and>
   watcher (snd (watchFolders (\<lambda>a b. a @ ''/'' @ b)
          ((scriptedEnv (\<lambda>t. Inr 5) (\<lambda>t. Inr 7))\<lparr>osStat := \<lambda>t p. Inr \<lparr>Size = 4096, IsDir = True\<rparr>\<rparr>)
          (Inr (FileTree ''tmp'' True None
                 [FileTree ''a.txt'' False None [], FileTree ''sub'' True None []]))
          (newWorker [] 0 ValidEvents (\<lambda>p. True)))) = [Watch ''/tmp''] \<and>
   watcher (snd (watchFolders (\<lambda>a b. a @ ''/'' @ b)
          ((scriptedEnv (\<lambda>t. Inr 5) (\<lambda>t. Inr 7))\<lparr>osStat := \<lambda>t p. Inr \<lparr>Size = 4096, IsDir = True\<rparr>\<rparr>)
          (Inr (FileTree ''tmp'' True None
                 [FileTree ''a.txt'' False None [], FileTree ''sub'' True None []]))
          ((newWorker [] 0 ValidEvents (\<lambda>p. True))
             \<lparr>config := (config (newWorker [] 0 ValidEvents (\<lambda>p. True)))\<lparr>Recursive := True\<rparr>\<rparr>))) =
     [Watch ''/tmp'', Watch ''/tmp/sub'']"
proof -
  let ?env = "(scriptedEnv (\<lambda>t. Inr 5) (\<lambda>t. Inr 7))\<lparr>osStat := \<lambda>t p. Inr \<lparr>Size = 4096, IsDir = True\<rparr>\<rparr>"
  let ?w = "newWorker [] 0 ValidEvents (\<lambda>p. True)"
  let ?v = "?w\<lparr>config := (config ?w)\<lparr>Recursive := True\<rparr>\<rparr>"
  let ?evt = "rawEvent True Create ''/tmp/sub''"
  let ?tree = "FileTree ''tmp'' True None
                 [FileTree ''a.txt'' False None [], FileTree ''sub'' True None []]"
  let ?join = "\<lambda>a b. a @ ''/'' @ b"
  let ?stat = "\<lparr>Size = 4096, IsDir = True\<rparr>"
  have c: "IsCreate ?evt" by (simp add: rawEvent_def)
  have n: "Name ?evt = ''/tmp/sub''" by (simp add: rawEvent_def)
  have s: "osStat ?env (tick ?w) (Name ?evt) = Inr ?stat" by simp
  have s': "osStat ?env (tick ?v) (Name ?evt) = Inr ?stat" by simp
  have d: "IsDir ?stat" by simp
  have nr: "\<not> Recursive (config ?w)" by (simp add: newWorker_def)
  have r: "Recursive (config ?v) \<and> (Inr ?tree :: error + FileTree) = Inr ?tree \<and> readable ?tree \<and>
      (\<forall>t p. watcherWatch ?env t p = None)"
    by (simp add: scriptedEnv_fields)
  have w0: "watcher ?w = []" "dirs ?w = Map.empty" "path ?w = ''/tmp''"
    "watcher ?v = []" "path ?v = ''/tmp''"
    by (simp_all add: newWorker_def)
  have dp: "dirPaths ?join ''/tmp'' ?tree = [''/tmp'', ''/tmp/sub'']" by simp
  note t1 = created_directory_watched [OF c s d, of False ?join "Inr ?tree" ?tree]
  note t2 = created_directory_watched [OF c s' d, of False ?join "Inr ?tree" ?tree]
  from t1 nr have 1: "dirs (syncWatchersAndCaches ?env ?w ?evt) = [''/tmp/sub'' \<mapsto> True]"
    and 2: "watcher (syncWatchersAndCaches ?env ?w ?evt) = [Watch ''/tmp/sub'']"
    and 3: "watcher (snd (watchFolders ?join ?env (Inr ?tree) ?w)) = [Watch ''/tmp'']"
    unfolding n w0 by simp_all
  from t2 r have "watcher (snd (watchFolders ?join ?env (Inr ?tree) ?v)) =
      watcher ?v @ map Watch (dirPaths ?join (path ?v) ?tree)" by blast
  then have 4: "watcher (snd (watchFolders ?join ?env (Inr ?tree) ?v)) =
      [Watch ''/tmp'', Watch ''/tmp/sub'']"
    unfolding w0 dp by simp
  from c nr 1 2 3 4 show ?thesis by blast
qed

end
